theory Spec2Isabelle
  imports Complex_Main
begin

section \<open>Numbers and failures\<close>

text \<open>
  The TypeScript sources compute with JavaScript numbers, which are IEEE doubles.  This
  development models the finite numbers as reals and gives the functions of the spring and
  of the smoother twice.  The first version computes exactly: rounding is not modelled.  The
  second version, with the suffix \<open>_rnd\<close>, takes a rounding function \<open>rnd\<close> as its first
  argument and passes the result of every arithmetic operation of the source through it.
  The statements about the second version hold for every rounding function with the
  property they name (none, monotone, or accurate to a relative error), so also for the
  rounding of doubles, and the first version is the instance where \<open>rnd\<close> is the identity.
  A count of frames, the index of a sample and the answer of \<open>isSpringSettled\<close> can change
  with a rounding error; the frame-count law, the law of the nearest preceding sample and
  the behaviour of the default spring are stated about the second version.

  A division whose divisor is zero gives \<open>Infinity\<close> or \<open>NaN\<close> in JavaScript, which no real
  stands for; the model marks that point with the outcome \<open>NotFinite\<close> and stops there.
  \<open>NotFinite\<close> is therefore not an exception of the program: it delimits the inputs the
  model speaks about.  Overflow is not modelled.  \<open>ConfigError\<close> is the failure the
  specification names for an invalid spring configuration; no function of the sources throws.
\<close>

datatype error = ConfigError | NotFinite

definition jsdiv :: "real \<Rightarrow> real \<Rightarrow> error + real" where
  "jsdiv a b = (if b = 0 then Inl NotFinite else Inr (a / b))"

section \<open>spring.ts\<close>

record SpringConfig =
  stiffness :: real
  damping :: real
  mass :: real

definition DEFAULT_SPRING_CONFIG :: SpringConfig where
  "DEFAULT_SPRING_CONFIG = \<lparr>stiffness = 800, damping = 80, mass = 1\<rparr>"

record SpringState =
  position :: real
  velocity :: real

definition createSpringState :: "real \<Rightarrow> SpringState" where
  "createSpringState initial = \<lparr>position = initial, velocity = 0\<rparr>"

definition stepSpring :: "SpringState \<Rightarrow> real \<Rightarrow> SpringConfig \<Rightarrow> real \<Rightarrow> error + SpringState" where
  "stepSpring state target cfg dt =
     (let displacement = position state - target;
          springForce = - stiffness cfg * displacement;
          dampingForce = - damping cfg * velocity state
      in case jsdiv (springForce + dampingForce) (mass cfg) of
           Inl e \<Rightarrow> Inl e
         | Inr acceleration \<Rightarrow>
             (let newVelocity = velocity state + acceleration * dt;
                  newPosition = position state + newVelocity * dt
              in Inr \<lparr>position = newPosition, velocity = newVelocity\<rparr>))"

definition isSpringSettled :: "SpringState \<Rightarrow> real \<Rightarrow> real \<Rightarrow> bool" where
  "isSpringSettled state target threshold =
     (\<bar>position state - target\<bar> < threshold \<and> \<bar>velocity state\<bar> < threshold)"

record Spring2DState =
  spring_x :: SpringState
  spring_y :: SpringState

definition createSpring2D :: "real \<Rightarrow> real \<Rightarrow> Spring2DState" where
  "createSpring2D px py = \<lparr>spring_x = createSpringState px, spring_y = createSpringState py\<rparr>"

definition stepSpring2D ::
  "Spring2DState \<Rightarrow> real \<Rightarrow> real \<Rightarrow> SpringConfig \<Rightarrow> real \<Rightarrow> error + Spring2DState" where
  "stepSpring2D state targetX targetY cfg dt =
     (case stepSpring (spring_x state) targetX cfg dt of
        Inl e \<Rightarrow> Inl e
      | Inr sx \<Rightarrow>
          (case stepSpring (spring_y state) targetY cfg dt of
             Inl e \<Rightarrow> Inl e
           | Inr sy \<Rightarrow> Inr \<lparr>spring_x = sx, spring_y = sy\<rparr>))"

section \<open>cursorSmoothing.ts\<close>

record MouseMoveEvent =
  move_x :: real
  move_y :: real
  move_cursorId :: string
  processTimeMs :: real

record SmoothedPosition =
  pos_x :: real
  pos_y :: real
  rawX :: real
  rawY :: real
  pos_cursorId :: string

definition DEFAULT_TELEPORT_THRESHOLD :: real where
  "DEFAULT_TELEPORT_THRESHOLD = 500"

text \<open>The fields of the class \<open>CursorSmoother\<close>; \<open>lastRawPosition\<close> is \<open>null\<close> or a point.\<close>

record CursorSmoother =
  spring :: Spring2DState
  config :: SpringConfig
  lastRawPosition :: "(real \<times> real) option"
  teleportThreshold :: real

text \<open>The constructor: it stores its arguments and puts the spring at the origin.\<close>

definition newCursorSmoother :: "SpringConfig \<Rightarrow> real \<Rightarrow> CursorSmoother" where
  "newCursorSmoother cfg threshold =
     \<lparr>spring = createSpring2D 0 0, config = cfg, lastRawPosition = None,
      teleportThreshold = threshold\<rparr>"

text \<open>
  The method \<open>update\<close>: the object is passed in and returned.  The teleport test only runs
  when a previous raw position is recorded; the spring step follows in both cases.
\<close>

definition update ::
  "CursorSmoother \<Rightarrow> MouseMoveEvent \<Rightarrow> real \<Rightarrow> error + SmoothedPosition \<times> CursorSmoother" where
  "update this raw dt =
     (let spring0 =
        (case lastRawPosition this of
           None \<Rightarrow> spring this
         | Some lastRaw \<Rightarrow>
             (let dx = move_x raw - fst lastRaw;
                  dy = move_y raw - snd lastRaw;
                  distance = sqrt (dx * dx + dy * dy)
              in if distance > teleportThreshold this
                 then createSpring2D (move_x raw) (move_y raw)
                 else spring this))
      in case stepSpring2D spring0 (move_x raw) (move_y raw) (config this) dt of
           Inl e \<Rightarrow> Inl e
         | Inr spring1 \<Rightarrow>
             Inr (\<lparr>pos_x = position (spring_x spring1),
                   pos_y = position (spring_y spring1),
                   rawX = move_x raw,
                   rawY = move_y raw,
                   pos_cursorId = move_cursorId raw\<rparr>,
                  this\<lparr>spring := spring1,
                       lastRawPosition := Some (move_x raw, move_y raw)\<rparr>))"

definition reset :: "CursorSmoother \<Rightarrow> real \<Rightarrow> real \<Rightarrow> CursorSmoother" where
  "reset this px py =
     this\<lparr>spring := createSpring2D px py, lastRawPosition := Some (px, py)\<rparr>"

text \<open>
  The inner \<open>while\<close> loop of \<open>smoothMouseMoves\<close>: \<open>rawIndex\<close> moves forward as long as the
  next raw move exists and is not after the frame time.
\<close>

function advanceRawIndex :: "MouseMoveEvent list \<Rightarrow> real \<Rightarrow> nat \<Rightarrow> nat" where
  "advanceRawIndex moves frameTimeMs rawIndex =
     (if rawIndex + 1 < length moves \<and> processTimeMs (moves ! (rawIndex + 1)) \<le> frameTimeMs
      then advanceRawIndex moves frameTimeMs (rawIndex + 1)
      else rawIndex)"
  by pat_completeness auto
termination
  by (relation "measure (\<lambda>(moves, frameTimeMs, rawIndex). length moves - rawIndex)") auto

declare advanceRawIndex.simps [simp del]

text \<open>
  The \<open>for\<close> loop over the output frames, with the loop variables \<open>frame\<close>, \<open>rawIndex\<close>,
  the smoother object and the \<open>result\<close> array as arguments.
\<close>

function frameLoop ::
  "MouseMoveEvent list \<Rightarrow> real \<Rightarrow> int \<Rightarrow> int \<Rightarrow> nat \<Rightarrow> CursorSmoother \<Rightarrow> SmoothedPosition list
     \<Rightarrow> error + SmoothedPosition list" where
  "frameLoop moves frameDurationMs frameCount frame rawIndex smoother result =
     (if frame < frameCount then
        (let frameTimeMs = of_int frame * frameDurationMs;
             rawIndex' = advanceRawIndex moves frameTimeMs rawIndex;
             raw = moves ! rawIndex';
             dt = frameDurationMs / 1000
         in case update smoother
                   \<lparr>move_x = move_x raw, move_y = move_y raw,
                    move_cursorId = move_cursorId raw, processTimeMs = frameTimeMs\<rparr> dt of
              Inl e \<Rightarrow> Inl e
            | Inr (smoothed, smoother') \<Rightarrow>
                frameLoop moves frameDurationMs frameCount (frame + 1) rawIndex' smoother'
                  (result @ [smoothed]))
      else Inr result)"
  by pat_completeness auto
termination
  by (relation "measure (\<lambda>(moves, frameDurationMs, frameCount, frame, rawIndex, smoother, result).
                   nat (frameCount - frame))") auto

declare frameLoop.simps [simp del]

text \<open>
  The two lines of \<open>smoothMouseMoves\<close> that compute \<open>totalDurationMs\<close> and \<open>frameCount\<close>,
  as a function of their own because the frame times and raw indices below need the same
  count.  The stream is not empty where \<open>smoothMouseMoves\<close> reaches them.
\<close>

definition frameCountOf :: "MouseMoveEvent list \<Rightarrow> real \<Rightarrow> error + int" where
  "frameCountOf moves frameDurationMs =
     (let totalDurationMs = processTimeMs (moves ! (length moves - 1))
      in case jsdiv totalDurationMs frameDurationMs of
           Inl e \<Rightarrow> Inl e
         | Inr q \<Rightarrow> Inr (max 1 \<lceil>q\<rceil>))"

text \<open>
  The batch resampler.  Its default arguments, \<open>DEFAULT_SPRING_CONFIG\<close> and 30 frames per
  second, are passed by the caller here; the smoother it constructs takes the default
  teleport threshold.
\<close>

definition smoothMouseMoves ::
  "MouseMoveEvent list \<Rightarrow> SpringConfig \<Rightarrow> real \<Rightarrow> error + SmoothedPosition list" where
  "smoothMouseMoves moves cfg outputFps =
     (if length moves = 0 then Inr []
      else case jsdiv 1000 outputFps of
             Inl e \<Rightarrow> Inl e
           | Inr frameDurationMs \<Rightarrow>
               (case frameCountOf moves frameDurationMs of
                  Inl e \<Rightarrow> Inl e
                | Inr frameCount \<Rightarrow>
                    (let smoother =
                           reset (newCursorSmoother cfg DEFAULT_TELEPORT_THRESHOLD)
                             (move_x (moves ! 0)) (move_y (moves ! 0))
                     in frameLoop moves frameDurationMs frameCount 0 0 smoother [])))"

section \<open>spring.ts and cursorSmoothing.ts with rounded arithmetic\<close>

text \<open>
  \<open>stepSpring\<close>, \<open>isSpringSettled\<close>, \<open>stepSpring2D\<close>, \<open>update\<close> and \<open>smoothMouseMoves\<close> once
  more, line for line,
  with the result of every addition, subtraction, multiplication, division and square root
  of the source passed through \<open>rnd\<close>.  The negation of a number, the comparisons,
  \<open>Math.ceil\<close>, \<open>Math.max\<close> and the loop counter \<open>frame++\<close> are exact on doubles and stay as
  they are; the constructor, \<open>reset\<close> and the scan of the raw index compute nothing and are
  shared with the exact version.
\<close>

definition stepSpring_rnd ::
  "(real \<Rightarrow> real) \<Rightarrow> SpringState \<Rightarrow> real \<Rightarrow> SpringConfig \<Rightarrow> real \<Rightarrow> error + SpringState" where
  "stepSpring_rnd rnd state target cfg dt =
     (let displacement = rnd (position state - target);
          springForce = rnd (- stiffness cfg * displacement);
          dampingForce = rnd (- damping cfg * velocity state)
      in case jsdiv (rnd (springForce + dampingForce)) (mass cfg) of
           Inl e \<Rightarrow> Inl e
         | Inr ratio \<Rightarrow>
             (let acceleration = rnd ratio;
                  newVelocity = rnd (velocity state + rnd (acceleration * dt));
                  newPosition = rnd (position state + rnd (newVelocity * dt))
              in Inr \<lparr>position = newPosition, velocity = newVelocity\<rparr>))"

definition isSpringSettled_rnd :: "(real \<Rightarrow> real) \<Rightarrow> SpringState \<Rightarrow> real \<Rightarrow> real \<Rightarrow> bool" where
  "isSpringSettled_rnd rnd state target threshold =
     (\<bar>rnd (position state - target)\<bar> < threshold \<and> \<bar>velocity state\<bar> < threshold)"

definition stepSpring2D_rnd ::
  "(real \<Rightarrow> real) \<Rightarrow> Spring2DState \<Rightarrow> real \<Rightarrow> real \<Rightarrow> SpringConfig \<Rightarrow> real
     \<Rightarrow> error + Spring2DState" where
  "stepSpring2D_rnd rnd state targetX targetY cfg dt =
     (case stepSpring_rnd rnd (spring_x state) targetX cfg dt of
        Inl e \<Rightarrow> Inl e
      | Inr sx \<Rightarrow>
          (case stepSpring_rnd rnd (spring_y state) targetY cfg dt of
             Inl e \<Rightarrow> Inl e
           | Inr sy \<Rightarrow> Inr \<lparr>spring_x = sx, spring_y = sy\<rparr>))"

definition update_rnd ::
  "(real \<Rightarrow> real) \<Rightarrow> CursorSmoother \<Rightarrow> MouseMoveEvent \<Rightarrow> real
     \<Rightarrow> error + SmoothedPosition \<times> CursorSmoother" where
  "update_rnd rnd this raw dt =
     (let spring0 =
        (case lastRawPosition this of
           None \<Rightarrow> spring this
         | Some lastRaw \<Rightarrow>
             (let dx = rnd (move_x raw - fst lastRaw);
                  dy = rnd (move_y raw - snd lastRaw);
                  distance = rnd (sqrt (rnd (rnd (dx * dx) + rnd (dy * dy))))
              in if distance > teleportThreshold this
                 then createSpring2D (move_x raw) (move_y raw)
                 else spring this))
      in case stepSpring2D_rnd rnd spring0 (move_x raw) (move_y raw) (config this) dt of
           Inl e \<Rightarrow> Inl e
         | Inr spring1 \<Rightarrow>
             Inr (\<lparr>pos_x = position (spring_x spring1),
                   pos_y = position (spring_y spring1),
                   rawX = move_x raw,
                   rawY = move_y raw,
                   pos_cursorId = move_cursorId raw\<rparr>,
                  this\<lparr>spring := spring1,
                       lastRawPosition := Some (move_x raw, move_y raw)\<rparr>))"

function frameLoop_rnd ::
  "(real \<Rightarrow> real) \<Rightarrow> MouseMoveEvent list \<Rightarrow> real \<Rightarrow> int \<Rightarrow> int \<Rightarrow> nat \<Rightarrow> CursorSmoother
     \<Rightarrow> SmoothedPosition list \<Rightarrow> error + SmoothedPosition list" where
  "frameLoop_rnd rnd moves frameDurationMs frameCount frame rawIndex smoother result =
     (if frame < frameCount then
        (let frameTimeMs = rnd (of_int frame * frameDurationMs);
             rawIndex' = advanceRawIndex moves frameTimeMs rawIndex;
             raw = moves ! rawIndex';
             dt = rnd (frameDurationMs / 1000)
         in case update_rnd rnd smoother
                   \<lparr>move_x = move_x raw, move_y = move_y raw,
                    move_cursorId = move_cursorId raw, processTimeMs = frameTimeMs\<rparr> dt of
              Inl e \<Rightarrow> Inl e
            | Inr (smoothed, smoother') \<Rightarrow>
                frameLoop_rnd rnd moves frameDurationMs frameCount (frame + 1) rawIndex' smoother'
                  (result @ [smoothed]))
      else Inr result)"
  by pat_completeness auto
termination
  by (relation "measure (\<lambda>(rnd, moves, frameDurationMs, frameCount, frame, rawIndex, smoother, result).
                   nat (frameCount - frame))") auto

declare frameLoop_rnd.simps [simp del]

definition frameCountOf_rnd :: "(real \<Rightarrow> real) \<Rightarrow> MouseMoveEvent list \<Rightarrow> real \<Rightarrow> error + int" where
  "frameCountOf_rnd rnd moves frameDurationMs =
     (let totalDurationMs = processTimeMs (moves ! (length moves - 1))
      in case jsdiv totalDurationMs frameDurationMs of
           Inl e \<Rightarrow> Inl e
         | Inr q \<Rightarrow> Inr (max 1 \<lceil>rnd q\<rceil>))"

definition smoothMouseMoves_rnd ::
  "(real \<Rightarrow> real) \<Rightarrow> MouseMoveEvent list \<Rightarrow> SpringConfig \<Rightarrow> real
     \<Rightarrow> error + SmoothedPosition list" where
  "smoothMouseMoves_rnd rnd moves cfg outputFps =
     (if length moves = 0 then Inr []
      else case jsdiv 1000 outputFps of
             Inl e \<Rightarrow> Inl e
           | Inr q \<Rightarrow>
               (let frameDurationMs = rnd q
                in case frameCountOf_rnd rnd moves frameDurationMs of
                     Inl e \<Rightarrow> Inl e
                   | Inr frameCount \<Rightarrow>
                       (let smoother =
                              reset (newCursorSmoother cfg DEFAULT_TELEPORT_THRESHOLD)
                                (move_x (moves ! 0)) (move_y (moves ! 0))
                        in frameLoop_rnd rnd moves frameDurationMs frameCount 0 0 smoother [])))"

section \<open>CursorOverlay.tsx\<close>

record ScaleResult =
  scale :: real
  offsetX :: real
  offsetY :: real

definition calculateScale :: "real \<Rightarrow> real \<Rightarrow> real \<Rightarrow> real \<Rightarrow> error + ScaleResult" where
  "calculateScale videoWidth videoHeight containerWidth containerHeight =
     (if videoWidth = 0 \<or> videoHeight = 0 then Inr \<lparr>scale = 1, offsetX = 0, offsetY = 0\<rparr>
      else case jsdiv containerWidth videoWidth of
             Inl e \<Rightarrow> Inl e
           | Inr scaleX \<Rightarrow>
               (case jsdiv containerHeight videoHeight of
                  Inl e \<Rightarrow> Inl e
                | Inr scaleY \<Rightarrow>
                    (let scale' = min scaleX scaleY;
                         scaledWidth = videoWidth * scale';
                         scaledHeight = videoHeight * scale';
                         offsetX' = (containerWidth - scaledWidth) / 2;
                         offsetY' = (containerHeight - scaledHeight) / 2
                     in Inr \<lparr>scale = scale', offsetX = offsetX', offsetY = offsetY'\<rparr>)))"

section \<open>Auxiliary definitions for the statements\<close>

text \<open>
  The values that the variable \<open>rawIndex\<close> holds at the line
  \<open>const raw = moves[rawIndex]\<close>, one per iteration of the frame loop: the same loop as
  \<open>frameLoop\<close>, recording the index instead of driving the smoother.
\<close>

function frameRawIndices :: "MouseMoveEvent list \<Rightarrow> real \<Rightarrow> int \<Rightarrow> int \<Rightarrow> nat \<Rightarrow> nat list" where
  "frameRawIndices moves frameDurationMs frameCount frame rawIndex =
     (if frame < frameCount then
        (let frameTimeMs = of_int frame * frameDurationMs;
             rawIndex' = advanceRawIndex moves frameTimeMs rawIndex
         in rawIndex' # frameRawIndices moves frameDurationMs frameCount (frame + 1) rawIndex')
      else [])"
  by pat_completeness auto
termination
  by (relation "measure (\<lambda>(moves, frameDurationMs, frameCount, frame, rawIndex).
                   nat (frameCount - frame))") auto

declare frameRawIndices.simps [simp del]

text \<open>The raw index of every output frame of \<open>smoothMouseMoves\<close>, in frame order.\<close>

definition targetIndices :: "MouseMoveEvent list \<Rightarrow> real \<Rightarrow> error + nat list" where
  "targetIndices moves outputFps =
     (case jsdiv 1000 outputFps of
        Inl e \<Rightarrow> Inl e
      | Inr frameDurationMs \<Rightarrow>
          (case frameCountOf moves frameDurationMs of
             Inl e \<Rightarrow> Inl e
           | Inr frameCount \<Rightarrow> Inr (frameRawIndices moves frameDurationMs frameCount 0 0)))"

text \<open>The values of \<open>frameTimeMs\<close>, one per output frame of \<open>smoothMouseMoves\<close>.\<close>

definition outputFrameTimes :: "MouseMoveEvent list \<Rightarrow> real \<Rightarrow> error + real list" where
  "outputFrameTimes moves outputFps =
     (case jsdiv 1000 outputFps of
        Inl e \<Rightarrow> Inl e
      | Inr frameDurationMs \<Rightarrow>
          (case frameCountOf moves frameDurationMs of
             Inl e \<Rightarrow> Inl e
           | Inr frameCount \<Rightarrow>
               Inr (map (\<lambda>frame. of_int frame * frameDurationMs) [0..frameCount - 1])))"

text \<open>The data model's ordering of a raw stream: \<open>processTimeMs\<close> never decreases.\<close>

definition nonDecreasing :: "MouseMoveEvent list \<Rightarrow> bool" where
  "nonDecreasing moves = sorted (map processTimeMs moves)"

text \<open>
  What the scan guarantees about the index \<open>i\<close> it stops at for the frame time \<open>t\<close>: the
  index is in range, its sample is not after \<open>t\<close> unless it is the first sample, and every
  later sample is after \<open>t\<close>.
\<close>

definition selects :: "MouseMoveEvent list \<Rightarrow> real \<Rightarrow> nat \<Rightarrow> bool" where
  "selects moves t i =
     (i < length moves \<and> (i = 0 \<or> processTimeMs (moves ! i) \<le> t)
      \<and> (\<forall>j. i < j \<and> j < length moves \<longrightarrow> t < processTimeMs (moves ! j)))"

subsection \<open>The incremental mode, in the specification's words\<close>

text \<open>
  Incremental mode: a smoother receives one target per frame through \<open>update\<close>, with a
  fixed \<open>dt\<close>, and the returned positions are collected.
\<close>

fun driveSmoother :: "CursorSmoother \<Rightarrow> MouseMoveEvent list \<Rightarrow> real \<Rightarrow> error + SmoothedPosition list" where
  "driveSmoother smoother [] dt = Inr []"
| "driveSmoother smoother (target # targets) dt =
     (case update smoother target dt of
        Inl e \<Rightarrow> Inl e
      | Inr (smoothed, smoother') \<Rightarrow>
          (case driveSmoother smoother' targets dt of
             Inl e \<Rightarrow> Inl e
           | Inr rest \<Rightarrow> Inr (smoothed # rest)))"

text \<open>A fresh smoother with the default teleport threshold, reset to a first sample.\<close>

definition freshSmootherAt :: "SpringConfig \<Rightarrow> MouseMoveEvent \<Rightarrow> CursorSmoother" where
  "freshSmootherAt cfg first =
     reset (newCursorSmoother cfg DEFAULT_TELEPORT_THRESHOLD) (move_x first) (move_y first)"

text \<open>
  The nearest-preceding-sample policy as the specification words it: the latest raw sample
  whose \<open>processTimeMs\<close> is not after the frame time.  There is none when every sample is
  later than the frame.
\<close>

definition nearestPrecedingSample :: "MouseMoveEvent list \<Rightarrow> real \<Rightarrow> MouseMoveEvent option" where
  "nearestPrecedingSample moves frameTimeMs =
     (let preceding = filter (\<lambda>m. processTimeMs m \<le> frameTimeMs) moves
      in if preceding = [] then None else Some (last preceding))"

text \<open>
  The trajectory of the specification: every frame is driven with its nearest-preceding
  sample.  It exists only when every frame has such a sample.
\<close>

definition incrementalTrajectory ::
  "MouseMoveEvent list \<Rightarrow> SpringConfig \<Rightarrow> real \<Rightarrow> real list
     \<Rightarrow> (error + SmoothedPosition list) option" where
  "incrementalTrajectory moves cfg outputFps frameTimes =
     (case those (map (nearestPrecedingSample moves) frameTimes) of
        None \<Rightarrow> None
      | Some targets \<Rightarrow>
          Some (driveSmoother (freshSmootherAt cfg (hd moves)) targets (1000 / outputFps / 1000)))"

text \<open>
  The same policy with the first sample standing in for a frame that no sample precedes.
\<close>

definition targetSample :: "MouseMoveEvent list \<Rightarrow> real \<Rightarrow> MouseMoveEvent" where
  "targetSample moves frameTimeMs =
     (case nearestPrecedingSample moves frameTimeMs of
        None \<Rightarrow> hd moves
      | Some m \<Rightarrow> m)"


text \<open>Prefixing the frames already emitted to the outcome of the remaining frames.\<close>

definition appendTo :: "'a list \<Rightarrow> error + 'a list \<Rightarrow> error + 'a list" where
  "appendTo result r = (case r of Inl e \<Rightarrow> Inl e | Inr rest \<Rightarrow> Inr (result @ rest))"

subsection \<open>The same for rounded arithmetic\<close>

text \<open>
  The raw index of every iteration of the frame loop of \<open>smoothMouseMoves_rnd\<close>, and the
  incremental mode with \<open>update_rnd\<close>.
\<close>

function frameRawIndices_rnd ::
  "(real \<Rightarrow> real) \<Rightarrow> MouseMoveEvent list \<Rightarrow> real \<Rightarrow> int \<Rightarrow> int \<Rightarrow> nat \<Rightarrow> nat list" where
  "frameRawIndices_rnd rnd moves frameDurationMs frameCount frame rawIndex =
     (if frame < frameCount then
        (let frameTimeMs = rnd (of_int frame * frameDurationMs);
             rawIndex' = advanceRawIndex moves frameTimeMs rawIndex
         in rawIndex' # frameRawIndices_rnd rnd moves frameDurationMs frameCount (frame + 1) rawIndex')
      else [])"
  by pat_completeness auto
termination
  by (relation "measure (\<lambda>(rnd, moves, frameDurationMs, frameCount, frame, rawIndex).
                   nat (frameCount - frame))") auto

declare frameRawIndices_rnd.simps [simp del]

definition targetIndices_rnd :: "(real \<Rightarrow> real) \<Rightarrow> MouseMoveEvent list \<Rightarrow> real \<Rightarrow> error + nat list" where
  "targetIndices_rnd rnd moves outputFps =
     (case jsdiv 1000 outputFps of
        Inl e \<Rightarrow> Inl e
      | Inr q \<Rightarrow>
          (let frameDurationMs = rnd q
           in case frameCountOf_rnd rnd moves frameDurationMs of
                Inl e \<Rightarrow> Inl e
              | Inr frameCount \<Rightarrow> Inr (frameRawIndices_rnd rnd moves frameDurationMs frameCount 0 0)))"

definition outputFrameTimes_rnd :: "(real \<Rightarrow> real) \<Rightarrow> MouseMoveEvent list \<Rightarrow> real \<Rightarrow> error + real list" where
  "outputFrameTimes_rnd rnd moves outputFps =
     (case jsdiv 1000 outputFps of
        Inl e \<Rightarrow> Inl e
      | Inr q \<Rightarrow>
          (let frameDurationMs = rnd q
           in case frameCountOf_rnd rnd moves frameDurationMs of
                Inl e \<Rightarrow> Inl e
              | Inr frameCount \<Rightarrow>
                  Inr (map (\<lambda>frame. rnd (of_int frame * frameDurationMs)) [0..frameCount - 1])))"

fun driveSmoother_rnd ::
  "(real \<Rightarrow> real) \<Rightarrow> CursorSmoother \<Rightarrow> MouseMoveEvent list \<Rightarrow> real \<Rightarrow> error + SmoothedPosition list" where
  "driveSmoother_rnd rnd smoother [] dt = Inr []"
| "driveSmoother_rnd rnd smoother (target # targets) dt =
     (case update_rnd rnd smoother target dt of
        Inl e \<Rightarrow> Inl e
      | Inr (smoothed, smoother') \<Rightarrow>
          (case driveSmoother_rnd rnd smoother' targets dt of
             Inl e \<Rightarrow> Inl e
           | Inr rest \<Rightarrow> Inr (smoothed # rest)))"

subsection \<open>Rounding to a double\<close>

text \<open>
  Rounding to the nearest number with 53 significant bits, a tie going to the even
  mantissa: the rounding of IEEE doubles, without the bounds on the exponent (no underflow
  and no overflow).  \<open>roundTiesEven\<close> rounds a real to an integer in that way.
\<close>

definition roundTiesEven :: "real \<Rightarrow> int" where
  "roundTiesEven q =
     (let f = \<lfloor>q\<rfloor>; r = q - of_int f
      in if r < 1 / 2 then f else if 1 / 2 < r then f + 1 else if even f then f else f + 1)"

definition toDouble :: "real \<Rightarrow> real" where
  "toDouble x =
     (if x = 0 then 0
      else let e = \<lfloor>log 2 \<bar>x\<bar>\<rfloor>
           in sgn x * of_int (roundTiesEven (\<bar>x\<bar> * 2 powr (52 - of_int e))) * 2 powr (of_int e - 52))"

subsection \<open>Repeated stepping toward a fixed target\<close>

text \<open>
  The state after \<open>n\<close> calls of \<open>stepSpring\<close> with an unchanged target, configuration and
  \<open>dt\<close>, and whether that state counts as settled, with the arithmetic of the step rounded
  by \<open>rnd\<close>.
\<close>

fun stepSpringTimes_rnd ::
  "(real \<Rightarrow> real) \<Rightarrow> nat \<Rightarrow> SpringState \<Rightarrow> real \<Rightarrow> SpringConfig \<Rightarrow> real \<Rightarrow> error + SpringState" where
  "stepSpringTimes_rnd rnd 0 state target cfg dt = Inr state"
| "stepSpringTimes_rnd rnd (Suc n) state target cfg dt =
     (case stepSpringTimes_rnd rnd n state target cfg dt of
        Inl e \<Rightarrow> Inl e
      | Inr state' \<Rightarrow> stepSpring_rnd rnd state' target cfg dt)"

definition settledAfter_rnd ::
  "(real \<Rightarrow> real) \<Rightarrow> nat \<Rightarrow> SpringState \<Rightarrow> real \<Rightarrow> SpringConfig \<Rightarrow> real \<Rightarrow> real \<Rightarrow> bool" where
  "settledAfter_rnd rnd n state target cfg dt threshold =
     (case stepSpringTimes_rnd rnd n state target cfg dt of
        Inl e \<Rightarrow> False
      | Inr state' \<Rightarrow> isSpringSettled_rnd rnd state' target threshold)"

section \<open>Facts about the model\<close>

subsection \<open>The spring at rest and the absence of failures\<close>

lemma stepSpring_at_rest:
  "mass cfg \<noteq> 0 \<Longrightarrow> stepSpring (createSpringState p) p cfg dt = Inr (createSpringState p)"
  by (simp add: stepSpring_def createSpringState_def jsdiv_def)

lemma stepSpring2D_at_rest:
  "mass cfg \<noteq> 0 \<Longrightarrow> stepSpring2D (createSpring2D px py) px py cfg dt = Inr (createSpring2D px py)"
  by (simp add: stepSpring2D_def createSpring2D_def stepSpring_at_rest)





subsection \<open>The frame loop as a sequence of updates\<close>

lemma update_ignores_time:
  "update this (raw\<lparr>processTimeMs := t\<rparr>) dt = update this raw dt"
  by (simp add: update_def Let_def cong: option.case_cong sum.case_cong if_cong)

lemma update_ignores_time':
  "update this \<lparr>move_x = move_x raw, move_y = move_y raw, move_cursorId = move_cursorId raw, processTimeMs = t\<rparr> dt = update this raw dt"
  by (simp add: update_def Let_def cong: option.case_cong sum.case_cong if_cong)

lemma frameLoop_drive_aux:
  "nat (fc - frame) = n \<Longrightarrow>
   frameLoop moves fd fc frame r s res =
     appendTo res (driveSmoother s (map ((!) moves) (frameRawIndices moves fd fc frame r)) (fd / 1000))"
proof (induction n arbitrary: frame r s res)
  case 0
  then have "\<not> frame < fc" by simp
  then show ?case
    by (simp add: frameLoop.simps [of moves fd fc frame] frameRawIndices.simps [of moves fd fc frame] appendTo_def)
next
  case (Suc n)
  then have lt: "frame < fc" and n: "nat (fc - (frame + 1)) = n" by simp_all
  let ?r' = "advanceRawIndex moves (of_int frame * fd) r"
  show ?case
  proof (cases "update s (moves ! ?r') (fd / 1000)")
    case (Inl e)
    with lt show ?thesis
      by (simp add: frameLoop.simps [of moves fd fc frame] frameRawIndices.simps [of moves fd fc frame]
          appendTo_def Let_def update_ignores_time')
  next
    case (Inr ps)
    obtain p s' where ps: "ps = (p, s')" by (cases ps)
    from lt Inr ps show ?thesis
      by (simp add: frameLoop.simps [of moves fd fc frame] frameRawIndices.simps [of moves fd fc frame]
          Suc.IH [OF n] appendTo_def Let_def update_ignores_time' split: sum.splits)
  qed
qed

lemma frameLoop_drive:
  "frameLoop moves fd fc frame r s res =
     appendTo res (driveSmoother s (map ((!) moves) (frameRawIndices moves fd fc frame r)) (fd / 1000))"
  by (rule frameLoop_drive_aux [OF refl])



lemma smoothMouseMoves_unfold:
  assumes "moves \<noteq> []" "outputFps \<noteq> 0"
  shows "smoothMouseMoves moves cfg outputFps =
     driveSmoother
       (reset (newCursorSmoother cfg DEFAULT_TELEPORT_THRESHOLD) (move_x (hd moves)) (move_y (hd moves)))
       (map ((!) moves)
          (frameRawIndices moves (1000 / outputFps)
             (max 1 \<lceil>processTimeMs (last moves) / (1000 / outputFps)\<rceil>) 0 0))
       (1000 / outputFps / 1000)"
proof -
  have "appendTo [] r = r" for r :: "error + SmoothedPosition list"
    by (cases r) (simp_all add: appendTo_def)
  with assms show ?thesis
    by (simp add: smoothMouseMoves_def frameCountOf_def jsdiv_def frameLoop_drive
        last_conv_nth hd_conv_nth)
qed


subsection \<open>The raw index scan\<close>

lemma advanceRawIndex_ge: "rawIndex \<le> advanceRawIndex moves t rawIndex"
proof (induction moves t rawIndex rule: advanceRawIndex.induct)
  case (1 moves t rawIndex)
  then show ?case
    by (subst advanceRawIndex.simps) (auto simp: Suc_leD)
qed

lemma advanceRawIndex_less:
  "rawIndex < length moves \<Longrightarrow> advanceRawIndex moves t rawIndex < length moves"
proof (induction moves t rawIndex rule: advanceRawIndex.induct)
  case (1 moves t rawIndex)
  then show ?case
    by (subst advanceRawIndex.simps) auto
qed

text \<open>
  The index the loop reads with stays inside the stream, for every stream and every frame
  time: the reads \<open>moves[rawIndex]\<close> and \<open>moves[rawIndex + 1]\<close> never leave the array.
\<close>

lemma frameRawIndices_in_range_aux:
  "nat (fc - frame) = n \<Longrightarrow> r < length moves \<Longrightarrow>
   \<forall>i \<in> set (frameRawIndices moves fd fc frame r). i < length moves"
proof (induction n arbitrary: frame r)
  case 0
  then have "\<not> frame < fc" by simp
  then show ?case by (simp add: frameRawIndices.simps [of moves fd fc frame])
next
  case (Suc n)
  then have lt: "frame < fc" and n: "nat (fc - (frame + 1)) = n" by simp_all
  let ?r' = "advanceRawIndex moves (of_int frame * fd) r"
  have r': "?r' < length moves" using Suc.prems(2) by (rule advanceRawIndex_less)
  from lt r' Suc.IH [OF n r'] show ?case
    by (simp add: frameRawIndices.simps [of moves fd fc frame] Let_def)
qed

lemma frameRawIndices_in_range:
  "moves \<noteq> [] \<Longrightarrow> \<forall>i \<in> set (frameRawIndices moves fd fc 0 0). i < length moves"
  by (rule frameRawIndices_in_range_aux [OF refl]) simp

lemma advanceRawIndex_stop:
  "advanceRawIndex moves t rawIndex + 1 < length moves \<Longrightarrow>
   t < processTimeMs (moves ! (advanceRawIndex moves t rawIndex + 1))"
proof (induction moves t rawIndex rule: advanceRawIndex.induct)
  case (1 moves t rawIndex)
  show ?case
  proof (cases "rawIndex + 1 < length moves \<and> processTimeMs (moves ! (rawIndex + 1)) \<le> t")
    case True
    then have eq: "advanceRawIndex moves t rawIndex = advanceRawIndex moves t (rawIndex + 1)"
      by (simp add: advanceRawIndex.simps [of moves t rawIndex])
    from "1.IH" [OF True] "1.prems" show ?thesis
      unfolding eq by simp
  next
    case False
    then have eq: "advanceRawIndex moves t rawIndex = rawIndex"
      by (auto simp: advanceRawIndex.simps [of moves t rawIndex])
    from False "1.prems" show ?thesis
      unfolding eq by auto
  qed
qed

lemma advanceRawIndex_moved:
  "advanceRawIndex moves t rawIndex \<noteq> rawIndex \<Longrightarrow>
   processTimeMs (moves ! advanceRawIndex moves t rawIndex) \<le> t"
proof (induction moves t rawIndex rule: advanceRawIndex.induct)
  case (1 moves t rawIndex)
  show ?case
  proof (cases "rawIndex + 1 < length moves \<and> processTimeMs (moves ! (rawIndex + 1)) \<le> t")
    case True
    then have eq: "advanceRawIndex moves t rawIndex = advanceRawIndex moves t (rawIndex + 1)"
      by (simp add: advanceRawIndex.simps [of moves t rawIndex])
    show ?thesis
    proof (cases "advanceRawIndex moves t (rawIndex + 1) = rawIndex + 1")
      case True
      with \<open>rawIndex + 1 < length moves \<and> processTimeMs (moves ! (rawIndex + 1)) \<le> t\<close>
      show ?thesis unfolding eq by simp
    next
      case False
      from "1.IH" [OF True False] show ?thesis unfolding eq .
    qed
  next
    case False
    then have "advanceRawIndex moves t rawIndex = rawIndex"
      by (auto simp: advanceRawIndex.simps [of moves t rawIndex])
    with "1.prems" show ?thesis by simp
  qed
qed

lemma nonDecreasing_nth:
  "nonDecreasing moves \<Longrightarrow> i \<le> j \<Longrightarrow> j < length moves \<Longrightarrow>
   processTimeMs (moves ! i) \<le> processTimeMs (moves ! j)"
  unfolding nonDecreasing_def
  using sorted_nth_mono [of "map processTimeMs moves" i j] by simp

lemma advanceRawIndex_selects:
  assumes nd: "nonDecreasing moves" and r: "rawIndex < length moves"
    and prev: "rawIndex = 0 \<or> processTimeMs (moves ! rawIndex) \<le> t"
  shows "selects moves t (advanceRawIndex moves t rawIndex)"
proof -
  let ?i = "advanceRawIndex moves t rawIndex"
  have lt: "?i < length moves" using r by (rule advanceRawIndex_less)
  have reached: "?i = 0 \<or> processTimeMs (moves ! ?i) \<le> t"
    using prev advanceRawIndex_moved [of moves t rawIndex] by (cases "?i = rawIndex") auto
  have later: "t < processTimeMs (moves ! j)" if j: "?i < j" "j < length moves" for j
  proof -
    from j have "?i + 1 < length moves" by simp
    then have "t < processTimeMs (moves ! (?i + 1))" by (rule advanceRawIndex_stop)
    also have "\<dots> \<le> processTimeMs (moves ! j)"
      using j by (intro nonDecreasing_nth [OF nd]) simp_all
    finally show ?thesis .
  qed
  from lt reached later show ?thesis by (simp add: selects_def)
qed

lemma filter_take_selected:
  assumes nd: "nonDecreasing moves" and i: "i < length moves"
    and le: "processTimeMs (moves ! i) \<le> t"
    and later: "\<forall>j. i < j \<and> j < length moves \<longrightarrow> t < processTimeMs (moves ! j)"
  shows "filter (\<lambda>m. processTimeMs m \<le> t) moves = take (Suc i) moves"
proof -
  have "filter (\<lambda>m. processTimeMs m \<le> t) (take (Suc i) moves) = take (Suc i) moves"
  proof (rule filter_True, rule ballI)
    fix m assume "m \<in> set (take (Suc i) moves)"
    then obtain k where k: "k < length (take (Suc i) moves)" "m = take (Suc i) moves ! k"
      by (auto simp: in_set_conv_nth)
    then have "k \<le> i" "m = moves ! k" by simp_all
    with nonDecreasing_nth [OF nd \<open>k \<le> i\<close> i] le show "processTimeMs m \<le> t" by simp
  qed
  moreover have "filter (\<lambda>m. processTimeMs m \<le> t) (drop (Suc i) moves) = []"
  proof (rule filter_False, rule ballI)
    fix m assume "m \<in> set (drop (Suc i) moves)"
    then obtain k where k: "k < length (drop (Suc i) moves)" "m = drop (Suc i) moves ! k"
      by (auto simp: in_set_conv_nth)
    then have "Suc i + k < length moves" "m = moves ! (Suc i + k)" by simp_all
    with later show "\<not> processTimeMs m \<le> t" by (simp add: not_le)
  qed
  ultimately have "filter (\<lambda>m. processTimeMs m \<le> t) (take (Suc i) moves @ drop (Suc i) moves)
      = take (Suc i) moves"
    by (simp only: filter_append append_Nil2)
  then show ?thesis by simp
qed

lemma filter_none_selected:
  assumes "\<forall>j. j < length moves \<longrightarrow> t < processTimeMs (moves ! j)"
  shows "filter (\<lambda>m. processTimeMs m \<le> t) moves = []"
proof (rule filter_False, rule ballI)
  fix m assume "m \<in> set moves"
  then obtain k where "k < length moves" "m = moves ! k" by (auto simp: in_set_conv_nth)
  with assms show "\<not> processTimeMs m \<le> t" by (simp add: not_le)
qed

lemma selects_targetSample:
  assumes nd: "nonDecreasing moves" and sel: "selects moves t i"
  shows "moves ! i = targetSample moves t"
proof (cases "processTimeMs (moves ! i) \<le> t")
  case True
  from sel have i: "i < length moves"
    and later: "\<forall>j. i < j \<and> j < length moves \<longrightarrow> t < processTimeMs (moves ! j)"
    by (simp_all add: selects_def)
  have f: "filter (\<lambda>m. processTimeMs m \<le> t) moves = take (Suc i) moves"
    using nd i True later by (rule filter_take_selected)
  from i have ne: "take (Suc i) moves \<noteq> []" by auto
  from i have "last (take (Suc i) moves) = moves ! i"
    by (simp add: take_Suc_conv_app_nth)
  with ne show ?thesis
    by (simp add: targetSample_def nearestPrecedingSample_def f)
next
  case False
  with sel have i0: "i = 0" and len: "0 < length moves"
    and later: "\<forall>j. 0 < j \<and> j < length moves \<longrightarrow> t < processTimeMs (moves ! j)"
    by (auto simp: selects_def)
  from False i0 later have "\<forall>j. j < length moves \<longrightarrow> t < processTimeMs (moves ! j)"
    by (metis not_le not_gr_zero)
  then have "filter (\<lambda>m. processTimeMs m \<le> t) moves = []" by (rule filter_none_selected)
  with i0 len show ?thesis
    by (simp add: targetSample_def nearestPrecedingSample_def hd_conv_nth)
qed








lemma list_all2_nthD2':
  "list_all2 P xs ys \<Longrightarrow> k < length ys \<Longrightarrow> P (xs ! k) (ys ! k)"
  by (simp add: list_all2_conv_all_nth)

subsection \<open>The frame loop with rounded arithmetic\<close>

lemma stepSpring_rnd_total:
  "mass cfg \<noteq> 0 \<Longrightarrow> \<exists>s'. stepSpring_rnd rnd s target cfg dt = Inr s'"
  by (simp add: stepSpring_rnd_def jsdiv_def Let_def)

lemma stepSpring2D_rnd_total:
  assumes "mass cfg \<noteq> 0"
  shows "\<exists>s'. stepSpring2D_rnd rnd s tx ty cfg dt = Inr s'"
proof -
  from assms obtain sx where "stepSpring_rnd rnd (spring_x s) tx cfg dt = Inr sx"
    using stepSpring_rnd_total by blast
  moreover from assms obtain sy where "stepSpring_rnd rnd (spring_y s) ty cfg dt = Inr sy"
    using stepSpring_rnd_total by blast
  ultimately show ?thesis by (simp add: stepSpring2D_rnd_def)
qed

lemma update_rnd_total:
  assumes "mass (config this) \<noteq> 0"
  shows "\<exists>smoothed this'. update_rnd rnd this raw dt = Inr (smoothed, this')
           \<and> rawX smoothed = move_x raw \<and> rawY smoothed = move_y raw
           \<and> pos_cursorId smoothed = move_cursorId raw
           \<and> config this' = config this"
proof -
  define spring0 where "spring0 =
        (case lastRawPosition this of
           None \<Rightarrow> spring this
         | Some lastRaw \<Rightarrow>
             (let dx = rnd (move_x raw - fst lastRaw);
                  dy = rnd (move_y raw - snd lastRaw);
                  distance = rnd (sqrt (rnd (rnd (dx * dx) + rnd (dy * dy))))
              in if distance > teleportThreshold this
                 then createSpring2D (move_x raw) (move_y raw)
                 else spring this))"
  from assms obtain spring1 where
    "stepSpring2D_rnd rnd spring0 (move_x raw) (move_y raw) (config this) dt = Inr spring1"
    using stepSpring2D_rnd_total by blast
  then show ?thesis
    unfolding update_rnd_def spring0_def [symmetric] by simp
qed

lemma driveSmoother_rnd_total:
  "mass (config s) \<noteq> 0 \<Longrightarrow>
   \<exists>ps. driveSmoother_rnd rnd s targets dt = Inr ps
        \<and> list_all2 (\<lambda>p m. rawX p = move_x m \<and> rawY p = move_y m
                            \<and> pos_cursorId p = move_cursorId m) ps targets"
proof (induction targets arbitrary: s)
  case Nil
  show ?case by simp
next
  case (Cons m targets)
  from update_rnd_total [OF Cons.prems, of rnd m dt] obtain p s' where
    u: "update_rnd rnd s m dt = Inr (p, s')"
    and raw: "rawX p = move_x m" "rawY p = move_y m" "pos_cursorId p = move_cursorId m"
    and cfg: "config s' = config s"
    by blast
  from Cons.prems cfg have "mass (config s') \<noteq> 0" by simp
  from Cons.IH [OF this] obtain ps where
    "driveSmoother_rnd rnd s' targets dt = Inr ps"
    "list_all2 (\<lambda>p m. rawX p = move_x m \<and> rawY p = move_y m
                            \<and> pos_cursorId p = move_cursorId m) ps targets"
    by blast
  with u raw show ?case by simp
qed

lemma update_rnd_ignores_time:
  "update_rnd rnd this \<lparr>move_x = move_x raw, move_y = move_y raw, move_cursorId = move_cursorId raw, processTimeMs = t\<rparr> dt = update_rnd rnd this raw dt"
  by (simp add: update_rnd_def Let_def cong: option.case_cong sum.case_cong if_cong)

lemma frameLoop_rnd_drive_aux:
  "nat (fc - frame) = n \<Longrightarrow>
   frameLoop_rnd rnd moves fd fc frame r s res =
     appendTo res (driveSmoother_rnd rnd s (map ((!) moves) (frameRawIndices_rnd rnd moves fd fc frame r))
                     (rnd (fd / 1000)))"
proof (induction n arbitrary: frame r s res)
  case 0
  then have "\<not> frame < fc" by simp
  then show ?case
    by (simp add: frameLoop_rnd.simps [of rnd moves fd fc frame]
        frameRawIndices_rnd.simps [of rnd moves fd fc frame] appendTo_def)
next
  case (Suc n)
  then have lt: "frame < fc" and n: "nat (fc - (frame + 1)) = n" by simp_all
  let ?r' = "advanceRawIndex moves (rnd (of_int frame * fd)) r"
  show ?case
  proof (cases "update_rnd rnd s (moves ! ?r') (rnd (fd / 1000))")
    case (Inl e)
    with lt show ?thesis
      by (simp add: frameLoop_rnd.simps [of rnd moves fd fc frame]
          frameRawIndices_rnd.simps [of rnd moves fd fc frame]
          appendTo_def Let_def update_rnd_ignores_time)
  next
    case (Inr ps)
    obtain p s' where ps: "ps = (p, s')" by (cases ps)
    from lt Inr ps show ?thesis
      by (simp add: frameLoop_rnd.simps [of rnd moves fd fc frame]
          frameRawIndices_rnd.simps [of rnd moves fd fc frame]
          Suc.IH [OF n] appendTo_def Let_def update_rnd_ignores_time split: sum.splits)
  qed
qed

lemma frameLoop_rnd_drive:
  "frameLoop_rnd rnd moves fd fc frame r s res =
     appendTo res (driveSmoother_rnd rnd s (map ((!) moves) (frameRawIndices_rnd rnd moves fd fc frame r))
                     (rnd (fd / 1000)))"
  by (rule frameLoop_rnd_drive_aux [OF refl])

lemma length_frameRawIndices_rnd_aux:
  "nat (fc - frame) = n \<Longrightarrow> length (frameRawIndices_rnd rnd moves fd fc frame r) = n"
proof (induction n arbitrary: frame r)
  case 0
  then have "\<not> frame < fc" by simp
  then show ?case by (simp add: frameRawIndices_rnd.simps [of rnd moves fd fc frame])
next
  case (Suc n)
  then have lt: "frame < fc" and n: "nat (fc - (frame + 1)) = n" by simp_all
  from lt Suc.IH [OF n] show ?case
    by (simp add: frameRawIndices_rnd.simps [of rnd moves fd fc frame] Let_def)
qed

lemma length_frameRawIndices_rnd:
  "length (frameRawIndices_rnd rnd moves fd fc frame r) = nat (fc - frame)"
  by (rule length_frameRawIndices_rnd_aux [OF refl])

lemma smoothMouseMoves_rnd_unfold:
  assumes "moves \<noteq> []" "outputFps \<noteq> 0" "rnd (1000 / outputFps) \<noteq> 0"
  shows "smoothMouseMoves_rnd rnd moves cfg outputFps =
     driveSmoother_rnd rnd
       (reset (newCursorSmoother cfg DEFAULT_TELEPORT_THRESHOLD) (move_x (hd moves)) (move_y (hd moves)))
       (map ((!) moves)
          (frameRawIndices_rnd rnd moves (rnd (1000 / outputFps))
             (max 1 \<lceil>rnd (processTimeMs (last moves) / rnd (1000 / outputFps))\<rceil>) 0 0))
       (rnd (rnd (1000 / outputFps) / 1000))"
proof -
  have "appendTo [] r = r" for r :: "error + SmoothedPosition list"
    by (cases r) (simp_all add: appendTo_def)
  with assms show ?thesis
    by (simp add: smoothMouseMoves_rnd_def frameCountOf_rnd_def jsdiv_def frameLoop_rnd_drive
        last_conv_nth hd_conv_nth Let_def)
qed

lemma targetIndices_rnd_unfold:
  assumes "moves \<noteq> []" "outputFps \<noteq> 0" "rnd (1000 / outputFps) \<noteq> 0"
  shows "targetIndices_rnd rnd moves outputFps =
     Inr (frameRawIndices_rnd rnd moves (rnd (1000 / outputFps))
             (max 1 \<lceil>rnd (processTimeMs (last moves) / rnd (1000 / outputFps))\<rceil>) 0 0)"
  using assms
  by (simp add: targetIndices_rnd_def frameCountOf_rnd_def jsdiv_def last_conv_nth Let_def)

lemma smoothMouseMoves_rnd_frames:
  assumes "moves \<noteq> []" and "outputFps \<noteq> 0" and "rnd (1000 / outputFps) \<noteq> 0"
    and "mass cfg \<noteq> 0"
  defines "idx \<equiv> frameRawIndices_rnd rnd moves (rnd (1000 / outputFps))
             (max 1 \<lceil>rnd (processTimeMs (last moves) / rnd (1000 / outputFps))\<rceil>) 0 0"
  shows "\<exists>frames. smoothMouseMoves_rnd rnd moves cfg outputFps = Inr frames
           \<and> list_all2 (\<lambda>p i. rawX p = move_x (moves ! i) \<and> rawY p = move_y (moves ! i)
                            \<and> pos_cursorId p = move_cursorId (moves ! i)) frames idx"
proof -
  let ?s = "reset (newCursorSmoother cfg DEFAULT_TELEPORT_THRESHOLD) (move_x (hd moves)) (move_y (hd moves))"
  let ?dt = "rnd (rnd (1000 / outputFps) / 1000)"
  have "mass (config ?s) \<noteq> 0"
    using assms(4) by (simp add: reset_def newCursorSmoother_def)
  from driveSmoother_rnd_total [OF this, of rnd "map ((!) moves) idx" ?dt]
  obtain ps where ps: "driveSmoother_rnd rnd ?s (map ((!) moves) idx) ?dt = Inr ps"
    and rel: "list_all2 (\<lambda>p m. rawX p = move_x m \<and> rawY p = move_y m
                            \<and> pos_cursorId p = move_cursorId m) ps (map ((!) moves) idx)"
    by blast
  from rel have "list_all2 (\<lambda>p i. rawX p = move_x (moves ! i) \<and> rawY p = move_y (moves ! i)
                            \<and> pos_cursorId p = move_cursorId (moves ! i)) ps idx"
    by (simp add: list.rel_map)
  with ps assms(1,2,3) show ?thesis
    by (simp add: smoothMouseMoves_rnd_unfold [where rnd = rnd] idx_def)
qed

lemma smoothMouseMoves_rnd_length:
  assumes "moves \<noteq> []" and "outputFps \<noteq> 0" and "rnd (1000 / outputFps) \<noteq> 0"
    and "mass cfg \<noteq> 0"
  shows "\<exists>frames. smoothMouseMoves_rnd rnd moves cfg outputFps = Inr frames
           \<and> int (length frames)
               = max 1 \<lceil>rnd (processTimeMs (last moves) / rnd (1000 / outputFps))\<rceil>"
proof -
  from assms smoothMouseMoves_rnd_frames [where rnd = rnd and moves = moves
      and outputFps = outputFps and cfg = cfg] obtain frames where
    fr: "smoothMouseMoves_rnd rnd moves cfg outputFps = Inr frames"
    and rel: "list_all2 (\<lambda>p i. rawX p = move_x (moves ! i) \<and> rawY p = move_y (moves ! i)
                            \<and> pos_cursorId p = move_cursorId (moves ! i)) frames
        (frameRawIndices_rnd rnd moves (rnd (1000 / outputFps))
             (max 1 \<lceil>rnd (processTimeMs (last moves) / rnd (1000 / outputFps))\<rceil>) 0 0)"
    by blast
  from rel have "length frames = length (frameRawIndices_rnd rnd moves (rnd (1000 / outputFps))
             (max 1 \<lceil>rnd (processTimeMs (last moves) / rnd (1000 / outputFps))\<rceil>) 0 0)"
    by (rule list_all2_lengthD)
  then have "int (length frames) = max 1 \<lceil>rnd (processTimeMs (last moves) / rnd (1000 / outputFps))\<rceil>"
    by (simp add: length_frameRawIndices_rnd)
  with fr show ?thesis by simp
qed

lemma frameRawIndices_rnd_selects:
  assumes nd: "nonDecreasing moves" and fd: "0 \<le> fd" and rnd: "mono rnd"
  shows "nat (fc - frame) = n \<Longrightarrow> r < length moves \<Longrightarrow>
         r = 0 \<or> processTimeMs (moves ! r) \<le> rnd (of_int frame * fd) \<Longrightarrow>
         list_all2 (\<lambda>f i. selects moves (rnd (of_int f * fd)) i) [frame..fc - 1]
           (frameRawIndices_rnd rnd moves fd fc frame r)"
proof (induction n arbitrary: frame r)
  case 0
  then have "\<not> frame < fc" by simp
  then show ?case
    by (simp add: frameRawIndices_rnd.simps [of rnd moves fd fc frame])
next
  case (Suc n)
  then have lt: "frame < fc" and n: "nat (fc - (frame + 1)) = n" by simp_all
  let ?r' = "advanceRawIndex moves (rnd (of_int frame * fd)) r"
  have sel: "selects moves (rnd (of_int frame * fd)) ?r'"
    using nd Suc.prems(2,3) by (rule advanceRawIndex_selects)
  then have r': "?r' < length moves"
    and here: "?r' = 0 \<or> processTimeMs (moves ! ?r') \<le> rnd (of_int frame * fd)"
    by (simp_all add: selects_def)
  have "of_int frame * fd \<le> of_int (frame + 1) * fd"
    using fd by (simp add: mult_right_mono)
  with rnd have "rnd (of_int frame * fd) \<le> rnd (of_int (frame + 1) * fd)"
    by (rule monoD)
  with here have next_ok: "?r' = 0 \<or> processTimeMs (moves ! ?r') \<le> rnd (of_int (frame + 1) * fd)"
    by auto
  have up: "[frame..fc - 1] = frame # [frame + 1..fc - 1]"
    using lt by (simp add: upto_rec1)
  from lt sel Suc.IH [OF n r' next_ok] show ?case
    by (simp add: frameRawIndices_rnd.simps [of rnd moves fd fc frame] Let_def up)
qed

lemma frameRawIndices_rnd_targets:
  assumes nd: "nonDecreasing moves" and fd: "0 \<le> fd" and rnd: "mono rnd" and ne: "moves \<noteq> []"
  shows "map ((!) moves) (frameRawIndices_rnd rnd moves fd fc 0 0)
       = map (targetSample moves) (map (\<lambda>frame. rnd (of_int frame * fd)) [0..fc - 1])"
proof -
  have "list_all2 (\<lambda>f i. selects moves (rnd (of_int f * fd)) i) [0..fc - 1]
           (frameRawIndices_rnd rnd moves fd fc 0 0)"
    using ne by (intro frameRawIndices_rnd_selects [OF nd fd rnd refl]) simp_all
  then have "list_all2 (\<lambda>f i. targetSample moves (rnd (of_int f * fd)) = moves ! i) [0..fc - 1]
           (frameRawIndices_rnd rnd moves fd fc 0 0)"
    by (rule list_all2_mono) (simp add: selects_targetSample [OF nd])
  then have "map (\<lambda>f. targetSample moves (rnd (of_int f * fd))) [0..fc - 1]
           = map ((!) moves) (frameRawIndices_rnd rnd moves fd fc 0 0)"
    by (simp add: list.rel_eq [symmetric] list.rel_map)
  then show ?thesis by (simp add: comp_def)
qed

subsection \<open>Exact arithmetic as an instance of rounded arithmetic\<close>

lemma stepSpring_rnd_id: "stepSpring_rnd (\<lambda>x. x) = stepSpring"
  by (intro ext) (simp add: stepSpring_rnd_def stepSpring_def Let_def split: sum.splits)

lemma stepSpring2D_rnd_id: "stepSpring2D_rnd (\<lambda>x. x) = stepSpring2D"
  by (intro ext) (simp add: stepSpring2D_rnd_def stepSpring2D_def stepSpring_rnd_id split: sum.splits)

lemma update_rnd_id: "update_rnd (\<lambda>x. x) = update"
  by (intro ext) (simp add: update_rnd_def update_def stepSpring2D_rnd_id)

lemma driveSmoother_rnd_id: "driveSmoother_rnd (\<lambda>x. x) s targets dt = driveSmoother s targets dt"
  by (induction targets arbitrary: s) (simp_all add: update_rnd_id split: sum.splits)

lemma frameRawIndices_rnd_id_aux:
  "nat (fc - frame) = n \<Longrightarrow>
   frameRawIndices_rnd (\<lambda>x. x) moves fd fc frame r = frameRawIndices moves fd fc frame r"
proof (induction n arbitrary: frame r)
  case 0
  then have "\<not> frame < fc" by simp
  then show ?case
    by (simp add: frameRawIndices_rnd.simps [of _ moves fd fc frame]
        frameRawIndices.simps [of moves fd fc frame])
next
  case (Suc n)
  then have lt: "frame < fc" and n: "nat (fc - (frame + 1)) = n" by simp_all
  from lt Suc.IH [OF n] show ?case
    by (simp add: frameRawIndices_rnd.simps [of _ moves fd fc frame]
        frameRawIndices.simps [of moves fd fc frame] Let_def)
qed

lemma smoothMouseMoves_rnd_id:
  "smoothMouseMoves_rnd (\<lambda>x. x) moves cfg outputFps = smoothMouseMoves moves cfg outputFps"
proof -
  have "frameLoop_rnd (\<lambda>x. x) moves fd fc frame r s res = frameLoop moves fd fc frame r s res"
    for fd fc frame r s res
    by (simp add: frameLoop_rnd_drive frameLoop_drive driveSmoother_rnd_id
        frameRawIndices_rnd_id_aux [OF refl])
  then show ?thesis
    by (simp add: smoothMouseMoves_rnd_def smoothMouseMoves_def frameCountOf_rnd_def
        frameCountOf_def Let_def cong: sum.case_cong)
qed

subsection \<open>Rounding to a double\<close>

lemma roundTiesEven_bounds: "\<lfloor>q\<rfloor> \<le> roundTiesEven q \<and> roundTiesEven q \<le> \<lfloor>q\<rfloor> + 1"
  by (simp add: roundTiesEven_def Let_def)

lemma roundTiesEven_of_int [simp]: "roundTiesEven (of_int z) = z"
  by (simp add: roundTiesEven_def)

lemma roundTiesEven_mono: "q \<le> q' \<Longrightarrow> roundTiesEven q \<le> roundTiesEven q'"
proof -
  assume le: "q \<le> q'"
  then have f: "\<lfloor>q\<rfloor> \<le> \<lfloor>q'\<rfloor>" by (rule floor_mono)
  show ?thesis
  proof (cases "\<lfloor>q\<rfloor> = \<lfloor>q'\<rfloor>")
    case True
    with le show ?thesis
      by (auto simp: roundTiesEven_def Let_def)
  next
    case False
    with f have "\<lfloor>q\<rfloor> + 1 \<le> \<lfloor>q'\<rfloor>" by simp
    with roundTiesEven_bounds [of q] roundTiesEven_bounds [of q'] show ?thesis by linarith
  qed
qed

lemma toDouble_eval:
  assumes "0 < x" "2 ^ k \<le> x" "x < 2 ^ Suc k" "k \<le> 52"
  shows "toDouble x = of_int (roundTiesEven (x * 2 ^ (52 - k))) / 2 ^ (52 - k)"
proof -
  have "\<lfloor>log 2 x\<rfloor> = int k"
    using assms by (simp add: floor_log_eq_powr_iff powr_realpow powr_add)
  moreover have "2 powr (52 - real k) = (2::real) ^ (52 - k)"
    using assms(4) by (simp add: powr_realpow [symmetric] of_nat_diff)
  moreover have "2 powr (real k - 52) = 1 / (2::real) ^ (52 - k)"
  proof -
    have "2 powr (real k - 52) = 2 powr (- (52 - real k))" by simp
    also have "\<dots> = inverse (2 powr (52 - real k))" by (rule powr_minus)
    also have "2 powr (52 - real k) = (2::real) ^ (52 - k)"
      using assms(4) by (simp add: powr_realpow [symmetric] of_nat_diff)
    finally show ?thesis by (simp add: inverse_eq_divide)
  qed
  ultimately show ?thesis using assms(1) by (simp add: toDouble_def Let_def)
qed

lemma toDouble_0 [simp]: "toDouble 0 = 0"
  by (simp add: toDouble_def)

lemma toDouble_minus: "toDouble (- x) = - toDouble x"
  by (simp add: toDouble_def Let_def)

lemma powr_shift: "(2::real) ^ n * 2 powr (x - real n) = 2 powr x"
  by (simp add: powr_realpow [symmetric] powr_add [symmetric])

lemma toDouble_pos_bounds:
  assumes x: "0 < x"
  shows "2 powr of_int \<lfloor>log 2 x\<rfloor> \<le> toDouble x \<and> toDouble x \<le> 2 powr (of_int \<lfloor>log 2 x\<rfloor> + 1)"
proof -
  define e where "e = \<lfloor>log 2 x\<rfloor>"
  define s :: real where "s = 2 powr (52 - of_int e)"
  have s0: "0 < s" by (simp add: s_def)
  have lo: "2 powr of_int e \<le> x" and hi: "x < 2 powr (of_int e + 1)"
    using floor_log_eq_powr_iff [of x 2 e] x by (simp_all add: e_def)
  have "2 powr of_int e * s \<le> x * s" using lo s0 by (simp add: mult_right_mono)
  moreover have "2 powr of_int e * s = of_int (2 ^ 52)"
    by (simp add: s_def powr_add [symmetric] powr_realpow [symmetric])
  ultimately have "roundTiesEven (of_int (2 ^ 52)) \<le> roundTiesEven (x * s)"
    by (intro roundTiesEven_mono) simp
  then have r_lo: "2 ^ 52 \<le> roundTiesEven (x * s)" by (simp only: roundTiesEven_of_int)
  have "x * s \<le> 2 powr (of_int e + 1) * s" using hi s0 by (simp add: mult_right_mono)
  moreover have "2 powr (of_int e + 1) * s = of_int (2 ^ 53)"
    by (simp add: s_def powr_add [symmetric] powr_realpow [symmetric])
  ultimately have "roundTiesEven (x * s) \<le> roundTiesEven (of_int (2 ^ 53))"
    by (intro roundTiesEven_mono) simp
  then have r_hi: "roundTiesEven (x * s) \<le> 2 ^ 53" by (simp only: roundTiesEven_of_int)
  have td: "toDouble x = of_int (roundTiesEven (x * s)) * 2 powr (of_int e - 52)"
    using x by (simp add: toDouble_def Let_def e_def s_def)
  have "(2::real) powr of_int e = of_int (2 ^ 52) * 2 powr (of_int e - 52)"
    using powr_shift [of 52 "of_int e"] by simp
  also have "\<dots> \<le> of_int (roundTiesEven (x * s)) * 2 powr (of_int e - 52)"
    using r_lo by (intro mult_right_mono) simp_all
  finally have 1: "2 powr of_int e \<le> toDouble x" by (simp add: td)
  have "of_int (roundTiesEven (x * s)) * (2::real) powr (of_int e - 52)
      \<le> of_int (2 ^ 53) * 2 powr (of_int e - 52)"
    using r_hi by (intro mult_right_mono) simp_all
  also have "\<dots> = 2 powr (of_int e + 1)"
    using powr_shift [of 53 "of_int e + 1"] by simp
  finally have 2: "toDouble x \<le> 2 powr (of_int e + 1)" by (simp add: td)
  from 1 2 show ?thesis by (simp add: e_def)
qed

lemma toDouble_pos:
  assumes "0 < x"
  shows "0 < toDouble x"
proof -
  have "(0::real) < 2 powr of_int \<lfloor>log 2 x\<rfloor>" by simp
  with toDouble_pos_bounds [OF assms] show ?thesis by linarith
qed

lemma toDouble_mono_pos:
  assumes x: "0 < x" and le: "x \<le> y"
  shows "toDouble x \<le> toDouble y"
proof -
  from x le have y: "0 < y" by simp
  have e: "\<lfloor>log 2 x\<rfloor> \<le> \<lfloor>log 2 y\<rfloor>"
    using x le by (intro floor_mono) simp
  show ?thesis
  proof (cases "\<lfloor>log 2 x\<rfloor> = \<lfloor>log 2 y\<rfloor>")
    case True
    have "roundTiesEven (x * 2 powr (52 - of_int \<lfloor>log 2 y\<rfloor>))
        \<le> roundTiesEven (y * 2 powr (52 - of_int \<lfloor>log 2 y\<rfloor>))"
      using le by (intro roundTiesEven_mono mult_right_mono) simp_all
    then have "of_int (roundTiesEven (x * 2 powr (52 - of_int \<lfloor>log 2 y\<rfloor>)))
          * (2::real) powr (of_int \<lfloor>log 2 y\<rfloor> - 52)
        \<le> of_int (roundTiesEven (y * 2 powr (52 - of_int \<lfloor>log 2 y\<rfloor>)))
          * (2::real) powr (of_int \<lfloor>log 2 y\<rfloor> - 52)"
      by (intro mult_right_mono) simp_all
    with x y True show ?thesis by (simp add: toDouble_def Let_def)
  next
    case False
    with e have "\<lfloor>log 2 x\<rfloor> + 1 \<le> \<lfloor>log 2 y\<rfloor>" by simp
    then have "(of_int \<lfloor>log 2 x\<rfloor> :: real) + 1 \<le> of_int \<lfloor>log 2 y\<rfloor>"
      by (metis of_int_1 of_int_add of_int_le_iff)
    then have "(2::real) powr (of_int \<lfloor>log 2 x\<rfloor> + 1) \<le> 2 powr of_int \<lfloor>log 2 y\<rfloor>"
      by (intro powr_mono) simp_all
    with toDouble_pos_bounds [OF x] toDouble_pos_bounds [OF y] show ?thesis by linarith
  qed
qed

lemma mono_toDouble: "mono toDouble"
proof (rule monoI)
  fix x y :: real assume le: "x \<le> y"
  consider "0 < x" | "x = 0" | "x < 0" "y < 0" | "x < 0" "0 \<le> y" by linarith
  then show "toDouble x \<le> toDouble y"
  proof cases
    case 1
    then show ?thesis using le by (rule toDouble_mono_pos)
  next
    case 2
    with le have "y = 0 \<or> 0 < y" by auto
    with 2 show ?thesis using toDouble_pos [of y] by auto
  next
    case 3
    then have "0 < - y" "- y \<le> - x" using le by simp_all
    then have "toDouble (- y) \<le> toDouble (- x)" by (rule toDouble_mono_pos)
    then show ?thesis by (simp add: toDouble_minus)
  next
    case 4
    then have "0 < - x" by simp
    then have "0 < toDouble (- x)" by (rule toDouble_pos)
    then have "toDouble x < 0" by (simp add: toDouble_minus)
    moreover from 4 have "y = 0 \<or> 0 < y" by auto
    then have "0 \<le> toDouble y" using toDouble_pos [of y] by auto
    ultimately show ?thesis by simp
  qed
qed

text \<open>Integers below \<open>2 ^ 53\<close> are doubles.\<close>

lemma toDouble_of_nat:
  assumes "n < 2 ^ 53"
  shows "toDouble (of_nat n) = of_nat n"
proof (cases "n = 0")
  case True
  then show ?thesis by simp
next
  case False
  then have "1 \<le> n" by simp
  from ex_power_ivl1 [OF _ this, of 2] obtain k where k: "2 ^ k \<le> n" "n < 2 ^ (k + 1)"
    by auto
  from k(1) assms have "(2::nat) ^ k < 2 ^ 53" by (rule le_less_trans)
  then have "k < 53" by (rule power_less_imp_less_exp [rotated]) simp
  then have k52: "k \<le> 52" by simp
  have "(2::real) ^ k \<le> of_nat n"
    using k(1) by (metis of_nat_le_iff of_nat_numeral of_nat_power)
  moreover have "of_nat n < (2::real) ^ Suc k"
    using k(2) by (metis Suc_eq_plus1 of_nat_less_iff of_nat_numeral of_nat_power)
  moreover have "(0::real) < of_nat n" using False by simp
  ultimately have "toDouble (of_nat n)
      = of_int (roundTiesEven (of_nat n * 2 ^ (52 - k))) / 2 ^ (52 - k)"
    using k52 by (intro toDouble_eval)
  also have "of_nat n * (2::real) ^ (52 - k) = of_int (int n * 2 ^ (52 - k))" by simp
  also have "roundTiesEven \<dots> = int n * 2 ^ (52 - k)" by (rule roundTiesEven_of_int)
  finally show ?thesis by simp
qed

lemma toDouble_numeral:
  "numeral w < (2::nat) ^ 53 \<Longrightarrow> toDouble (numeral w) = numeral w"
  using toDouble_of_nat [of "numeral w"] by simp

lemma toDouble_1: "toDouble 1 = 1"
  using toDouble_of_nat [of 1] by simp

text \<open>The quotients, products and frame times of the examples below, rounded to doubles.\<close>

lemma toDouble_1000_24: "toDouble (1000 / 24) = 5864062014805333 / 2 ^ 47"
  by (subst toDouble_eval [where k = 5]) (simp_all add: roundTiesEven_def Let_def)

lemma toDouble_2625_24: "toDouble (2625 / (5864062014805333 / 2 ^ 47)) = 63 + 1 / 2 ^ 47"
  by (subst toDouble_eval [where k = 5]) (simp_all add: roundTiesEven_def Let_def)

lemma toDouble_1000_61: "toDouble (1000 / 61) = 4614343880502557 / 2 ^ 48"
  by (subst toDouble_eval [where k = 4]) (simp_all add: roundTiesEven_def Let_def)

lemma toDouble_1000_61': "toDouble (1000 / (4614343880502557 / 2 ^ 48)) = 61 + 1 / 2 ^ 47"
  by (subst toDouble_eval [where k = 5]) (simp_all add: roundTiesEven_def Let_def)

lemma toDouble_1000_19: "toDouble (1000 / 19) = 7407236229227789 / 2 ^ 47"
  by (subst toDouble_eval [where k = 5]) (simp_all add: roundTiesEven_def Let_def)

lemma toDouble_1100_19: "\<lceil>toDouble (1100 / (7407236229227789 / 2 ^ 47))\<rceil> = 21"
  by (subst toDouble_eval [where k = 4]) (simp_all add: roundTiesEven_def Let_def)

lemma toDouble_frame_19: "toDouble (19 * (7407236229227789 / 2 ^ 47)) = 1000 - 1 / 2 ^ 43"
  by (subst toDouble_eval [where k = 9]) (simp_all add: roundTiesEven_def Let_def)

lemma toDouble_frame_195: "toDouble (195 * (5864062014805333 / 2 ^ 47)) = 8125 - 1 / 2 ^ 40"
  by (subst toDouble_eval [where k = 12]) (simp_all add: roundTiesEven_def Let_def)

lemma roundTiesEven_error: "\<bar>of_int (roundTiesEven q) - q\<bar> \<le> 1 / 2"
proof -
  have "of_int \<lfloor>q\<rfloor> \<le> q" "q < of_int \<lfloor>q\<rfloor> + 1" by linarith+
  then show ?thesis
    by (auto simp: roundTiesEven_def Let_def)
qed

lemma toDouble_error: "\<bar>toDouble x - x\<bar> \<le> \<bar>x\<bar> / 2 ^ 53"
proof (cases "x = 0")
  case True
  then show ?thesis by simp
next
  case False
  define e where "e = \<lfloor>log 2 \<bar>x\<bar>\<rfloor>"
  define s :: real where "s = 2 powr (52 - of_int e)"
  define t :: real where "t = 2 powr (of_int e - 52)"
  define q where "q = \<bar>x\<bar> * s"
  from False have ax: "0 < \<bar>x\<bar>" by simp
  have t0: "0 < t" by (simp add: t_def)
  have st: "s * t = 1" by (simp add: s_def t_def powr_add [symmetric])
  have lo: "2 powr of_int e \<le> \<bar>x\<bar>"
    using floor_log_eq_powr_iff [of "\<bar>x\<bar>" 2 e] ax by (simp add: e_def)
  have "2 ^ 52 * t = 2 powr of_int e"
    using powr_shift [of 52 "of_int e"] by (simp add: t_def)
  with lo have t_le: "2 ^ 52 * t \<le> \<bar>x\<bar>" by simp
  have td: "toDouble x = sgn x * of_int (roundTiesEven q) * t"
    using False by (simp add: toDouble_def Let_def e_def s_def t_def q_def)
  have "x = sgn x * \<bar>x\<bar> * (s * t)" by (simp add: st sgn_mult_abs)
  then have x: "x = sgn x * q * t" by (simp add: q_def mult.assoc)
  have "toDouble x - x = sgn x * (of_int (roundTiesEven q) - q) * t"
    by (subst (2) x) (simp add: td algebra_simps)
  then have "\<bar>toDouble x - x\<bar> = \<bar>sgn x\<bar> * \<bar>of_int (roundTiesEven q) - q\<bar> * \<bar>t\<bar>"
    by (simp only: abs_mult)
  also have "\<dots> = \<bar>of_int (roundTiesEven q) - q\<bar> * t"
    using False t0 by (simp add: abs_sgn_eq)
  also have "\<dots> \<le> 1 / 2 * t"
    using roundTiesEven_error [of q] t0 by (intro mult_right_mono) simp_all
  also have "\<dots> \<le> \<bar>x\<bar> / 2 ^ 53"
    using t_le by simp
  finally show ?thesis .
qed

lemma toDouble_accurate: "\<forall>x. \<bar>toDouble x - x\<bar> \<le> \<bar>x\<bar> / 1000"
proof
  fix x
  have "\<bar>toDouble x - x\<bar> \<le> \<bar>x\<bar> / 2 ^ 53" by (rule toDouble_error)
  also have "\<dots> \<le> \<bar>x\<bar> / 1000" by (intro divide_left_mono) simp_all
  finally show "\<bar>toDouble x - x\<bar> \<le> \<bar>x\<bar> / 1000" .
qed

lemma toDouble_1000_30: "toDouble (1000 / 30) = 4691249611844267 / 2 ^ 47"
  by (subst toDouble_eval [where k = 5]) (simp_all add: roundTiesEven_def Let_def)

subsection \<open>A single raw sample\<close>

lemma update_at_rest:
  assumes m: "mass (config s) \<noteq> 0"
    and rest: "spring s = createSpring2D (move_x raw) (move_y raw)"
  shows "update s raw dt =
          Inr (\<lparr>pos_x = move_x raw, pos_y = move_y raw, rawX = move_x raw, rawY = move_y raw,
                pos_cursorId = move_cursorId raw\<rparr>,
               s\<lparr>spring := createSpring2D (move_x raw) (move_y raw),
                 lastRawPosition := Some (move_x raw, move_y raw)\<rparr>)"
proof -
  have "(case lastRawPosition s of
           None \<Rightarrow> spring s
         | Some lastRaw \<Rightarrow>
             (let dx = move_x raw - fst lastRaw;
                  dy = move_y raw - snd lastRaw;
                  distance = sqrt (dx * dx + dy * dy)
              in if distance > teleportThreshold s
                 then createSpring2D (move_x raw) (move_y raw)
                 else spring s)) = createSpring2D (move_x raw) (move_y raw)"
    using rest by (simp add: Let_def split: option.split)
  then have "update s raw dt =
     (case stepSpring2D (createSpring2D (move_x raw) (move_y raw)) (move_x raw) (move_y raw) (config s) dt of
           Inl e \<Rightarrow> Inl e
         | Inr spring1 \<Rightarrow>
             Inr (\<lparr>pos_x = position (spring_x spring1),
                   pos_y = position (spring_y spring1),
                   rawX = move_x raw,
                   rawY = move_y raw,
                   pos_cursorId = move_cursorId raw\<rparr>,
                  s\<lparr>spring := spring1,
                       lastRawPosition := Some (move_x raw, move_y raw)\<rparr>))"
    unfolding update_def by simp
  then show ?thesis
    by (simp add: stepSpring2D_at_rest [OF m]) (simp add: createSpring2D_def createSpringState_def)
qed

lemma driveSmoother_at_rest:
  "mass (config s) \<noteq> 0 \<Longrightarrow> spring s = createSpring2D (move_x m) (move_y m) \<Longrightarrow>
   driveSmoother s (replicate n m) dt =
     Inr (replicate n \<lparr>pos_x = move_x m, pos_y = move_y m, rawX = move_x m, rawY = move_y m,
                        pos_cursorId = move_cursorId m\<rparr>)"
proof (induction n arbitrary: s)
  case 0
  show ?case by simp
next
  case (Suc n)
  let ?s' = "s\<lparr>spring := createSpring2D (move_x m) (move_y m),
                 lastRawPosition := Some (move_x m, move_y m)\<rparr>"
  have "mass (config ?s') \<noteq> 0" "spring ?s' = createSpring2D (move_x m) (move_y m)"
    using Suc.prems by simp_all
  from Suc.IH [OF this] update_at_rest [OF Suc.prems, of dt] show ?case by simp
qed

lemma advanceRawIndex_single: "advanceRawIndex [m] t 0 = 0"
  by (simp add: advanceRawIndex.simps)

lemma frameRawIndices_single_aux:
  "nat (fc - frame) = n \<Longrightarrow> frameRawIndices [m] fd fc frame 0 = replicate n 0"
proof (induction n arbitrary: frame)
  case 0
  then have "\<not> frame < fc" by simp
  then show ?case by (simp add: frameRawIndices.simps [of "[m]" fd fc frame])
next
  case (Suc n)
  then have lt: "frame < fc" and n: "nat (fc - (frame + 1)) = n" by simp_all
  from lt Suc.IH [OF n] show ?case
    by (simp add: frameRawIndices.simps [of "[m]" fd fc frame] advanceRawIndex_single)
qed

subsection \<open>No function throws\<close>

lemma stepSpring_not_ConfigError: "stepSpring s target cfg dt \<noteq> Inl ConfigError"
  by (simp add: stepSpring_def jsdiv_def Let_def)

lemma stepSpring2D_not_ConfigError: "stepSpring2D s tx ty cfg dt \<noteq> Inl ConfigError"
  using stepSpring_not_ConfigError [of "spring_x s" tx cfg dt]
    stepSpring_not_ConfigError [of "spring_y s" ty cfg dt]
  by (auto simp: stepSpring2D_def split: sum.splits)

lemma update_not_ConfigError: "update this raw dt \<noteq> Inl ConfigError"
proof -
  have "stepSpring2D sp (move_x raw) (move_y raw) (config this) dt \<noteq> Inl ConfigError" for sp
    by (rule stepSpring2D_not_ConfigError)
  then show ?thesis
    unfolding update_def Let_def by (auto split: sum.splits)
qed

subsection \<open>Evaluating on concrete inputs\<close>

lemmas eval_defs = smoothMouseMoves_def frameCountOf_def jsdiv_def reset_def newCursorSmoother_def
  DEFAULT_TELEPORT_THRESHOLD_def DEFAULT_SPRING_CONFIG_def update_def stepSpring2D_def stepSpring_def
  createSpring2D_def createSpringState_def Let_def

text \<open>
  The teleport test compares a square root with the threshold.  The same test without the
  square root makes \<open>update\<close>, and with it the batch resampler, executable on rational inputs.
\<close>

lemma sqrt_gt_iff:
  assumes "0 \<le> a"
  shows "(t < sqrt a) = (t < 0 \<or> t * t < a)"
proof (cases "t < 0")
  case True
  from assms have "0 \<le> sqrt a" by simp
  with True have "t < sqrt a" by (rule less_le_trans)
  with True show ?thesis by simp
next
  case False
  then have "(t < sqrt a) = (sqrt (t * t) < sqrt a)" by simp
  also have "\<dots> = (t * t < a)" by (rule real_sqrt_less_iff)
  finally show ?thesis using False by simp
qed

lemma update_code [code]:
  "update this raw dt =
     (let spring0 =
        (case lastRawPosition this of
           None \<Rightarrow> spring this
         | Some lastRaw \<Rightarrow>
             (let dx = move_x raw - fst lastRaw;
                  dy = move_y raw - snd lastRaw;
                  squared = dx * dx + dy * dy
              in if teleportThreshold this < 0
                    \<or> teleportThreshold this * teleportThreshold this < squared
                 then createSpring2D (move_x raw) (move_y raw)
                 else spring this))
      in case stepSpring2D spring0 (move_x raw) (move_y raw) (config this) dt of
           Inl e \<Rightarrow> Inl e
         | Inr spring1 \<Rightarrow>
             Inr (\<lparr>pos_x = position (spring_x spring1),
                   pos_y = position (spring_y spring1),
                   rawX = move_x raw,
                   rawY = move_y raw,
                   pos_cursorId = move_cursorId raw\<rparr>,
                  this\<lparr>spring := spring1,
                       lastRawPosition := Some (move_x raw, move_y raw)\<rparr>))"
proof -
  have "(teleportThreshold this < sqrt (dx * dx + dy * dy))
      = (teleportThreshold this < 0 \<or> teleportThreshold this * teleportThreshold this < dx * dx + dy * dy)"
    for dx dy :: real
    by (rule sqrt_gt_iff) simp
  then show ?thesis
    unfolding update_def Let_def by (simp cong: option.case_cong)
qed


subsection \<open>Repeated spring steps\<close>

text \<open>
  A rounding function that is accurate to one part in a thousand keeps a number between
  999 and 1001 thousandths of itself.  The rounding of doubles is far more accurate.
\<close>

lemma rnd_nonneg:
  assumes "\<forall>x::real. \<bar>rnd x - x\<bar> \<le> \<bar>x\<bar> / 1000" and "0 \<le> x"
  shows "999 / 1000 * x \<le> rnd x" and "rnd x \<le> 1001 / 1000 * x"
  using assms(1) [rule_format, of x] assms(2) by linarith+

lemma rnd_nonpos:
  assumes "\<forall>x::real. \<bar>rnd x - x\<bar> \<le> \<bar>x\<bar> / 1000" and "x \<le> 0"
  shows "1001 / 1000 * x \<le> rnd x" and "rnd x \<le> 999 / 1000 * x"
  using assms(1) [rule_format, of x] assms(2) by linarith+

lemma stepSpring_rnd_default:
  "stepSpring_rnd rnd s 0 DEFAULT_SPRING_CONFIG dt =
     Inr \<lparr>position =
            rnd (position s +
                 rnd (rnd (velocity s +
                           rnd (rnd (rnd (rnd (- (800 * rnd (position s))) + rnd (- (80 * velocity s)))) * dt))
                      * dt)),
          velocity =
            rnd (velocity s +
                 rnd (rnd (rnd (rnd (- (800 * rnd (position s))) + rnd (- (80 * velocity s)))) * dt))\<rparr>"
  by (simp add: stepSpring_rnd_def DEFAULT_SPRING_CONFIG_def jsdiv_def Let_def)

lemma default_step_from_positive:
  assumes acc: "\<forall>x::real. \<bar>rnd x - x\<bar> \<le> \<bar>x\<bar> / 1000"
    and dt: "333 / 10000 \<le> dt" "dt \<le> 334 / 10000"
    and inv: "0 \<le> position s" "15 * position s \<le> velocity s" "30 \<le> velocity s"
  shows "\<exists>s'. stepSpring_rnd rnd s 0 DEFAULT_SPRING_CONFIG dt = Inr s'
           \<and> position s' \<le> 0 \<and> velocity s' \<le> 15 * position s' \<and> velocity s' \<le> - 30"
proof -
  define p where "p = position s"
  define v where "v = velocity s"
  define a1 where "a1 = rnd p"
  define sf where "sf = rnd (- (800 * a1))"
  define df where "df = rnd (- (80 * v))"
  define sm where "sm = rnd (sf + df)"
  define ac where "ac = rnd sm"
  define inc where "inc = rnd (ac * dt)"
  define v' where "v' = rnd (v + inc)"
  define pinc where "pinc = rnd (v' * dt)"
  define p' where "p' = rnd (p + pinc)"
  have step: "stepSpring_rnd rnd s 0 DEFAULT_SPRING_CONFIG dt = Inr \<lparr>position = p', velocity = v'\<rparr>"
    unfolding stepSpring_rnd_default p'_def pinc_def v'_def inc_def ac_def sm_def sf_def df_def
      a1_def p_def v_def ..
  have p0: "0 \<le> p" and pv: "15 * p \<le> v" and v30: "30 \<le> v"
    using inv by (simp_all add: p_def v_def)
  have a1: "999 / 1000 * p \<le> a1"
    unfolding a1_def using acc p0 by (rule rnd_nonneg)
  have "- (800 * a1) \<le> 0" using a1 p0 by argo
  with acc have "sf \<le> 999 / 1000 * (- (800 * a1))"
    unfolding sf_def by (rule rnd_nonpos)
  with a1 p0 have sf: "sf \<le> - 798 * p" by argo
  have "- (80 * v) \<le> 0" using v30 by argo
  with acc have "df \<le> 999 / 1000 * (- (80 * v))"
    unfolding df_def by (rule rnd_nonpos)
  then have df: "df \<le> - (799 / 10) * v" using v30 by argo
  have "sf + df \<le> 0" using sf df p0 v30 by argo
  with acc have "sm \<le> 999 / 1000 * (sf + df)"
    unfolding sm_def by (rule rnd_nonpos)
  with sf df p0 v30 have sm: "sm \<le> - 797 * p - (798 / 10) * v" by argo
  then have "sm \<le> 0" using p0 v30 by argo
  with acc have "ac \<le> 999 / 1000 * sm"
    unfolding ac_def by (rule rnd_nonpos)
  with sm p0 v30 have ac: "ac \<le> - 796 * p - (797 / 10) * v" by argo
  then have ac0: "ac \<le> 0" using p0 v30 by argo
  have "ac * dt \<le> ac * (333 / 10000)"
    using dt(1) ac0 by (rule mult_left_mono_neg)
  with ac p0 v30 have X: "ac * dt \<le> - (265 / 10) * p - (265 / 100) * v" by argo
  then have "ac * dt \<le> 0" using p0 v30 by argo
  with acc have "inc \<le> 999 / 1000 * (ac * dt)"
    unfolding inc_def by (rule rnd_nonpos)
  with X p0 v30 have inc: "inc \<le> - (264 / 10) * p - (264 / 100) * v" by argo
  then have sum0: "v + inc \<le> 0" using p0 v30 by argo
  with acc have v'1: "v' \<le> 999 / 1000 * (v + inc)"
    unfolding v'_def by (rule rnd_nonpos)
  with inc p0 v30 have v'2: "v' \<le> - (263 / 10) * p - (163 / 100) * v" by argo
  then have v'0: "v' \<le> 0" and v'30: "v' \<le> - 30" using p0 v30 by argo+
  have Y1: "v' * dt \<le> v' * (333 / 10000)"
    using dt(1) v'0 by (rule mult_left_mono_neg)
  have Y2: "v' * (334 / 10000) \<le> v' * dt"
    using dt(2) v'0 by (rule mult_left_mono_neg)
  from Y1 v'0 have Y0: "v' * dt \<le> 0" by argo
  from acc Y0 have pinc1: "pinc \<le> 999 / 1000 * (v' * dt)"
    unfolding pinc_def by (rule rnd_nonpos)
  from acc Y0 have pinc2: "1001 / 1000 * (v' * dt) \<le> pinc"
    unfolding pinc_def by (rule rnd_nonpos)
  from pinc1 Y1 v'2 p0 v30 have "pinc \<le> - (86 / 100) * p - (539 / 10000) * v" by argo
  with pv p0 v30 have psum: "p + pinc \<le> 0" by argo
  from acc psum have p'1: "p' \<le> 999 / 1000 * (p + pinc)"
    unfolding p'_def by (rule rnd_nonpos)
  from acc psum have p'2: "1001 / 1000 * (p + pinc) \<le> p'"
    unfolding p'_def by (rule rnd_nonpos)
  from p'1 psum have neg: "p' \<le> 0" by argo
  from p'2 p0 pinc2 Y2 v'0 have ratio: "v' \<le> 15 * p'" by argo
  from step neg ratio v'30 show ?thesis by simp
qed


lemma stepSpring_rnd_default_reflect:
  assumes "stepSpring_rnd (\<lambda>x. - rnd (- x)) \<lparr>position = - position s, velocity = - velocity s\<rparr> 0
             DEFAULT_SPRING_CONFIG dt = Inr s'"
  shows "stepSpring_rnd rnd s 0 DEFAULT_SPRING_CONFIG dt
           = Inr \<lparr>position = - position s', velocity = - velocity s'\<rparr>"
  using assms unfolding stepSpring_rnd_default by (auto simp: add.commute)

lemma default_step_from_negative:
  assumes acc: "\<forall>x::real. \<bar>rnd x - x\<bar> \<le> \<bar>x\<bar> / 1000"
    and dt: "333 / 10000 \<le> dt" "dt \<le> 334 / 10000"
    and inv: "position s \<le> 0" "velocity s \<le> 15 * position s" "velocity s \<le> - 30"
  shows "\<exists>s'. stepSpring_rnd rnd s 0 DEFAULT_SPRING_CONFIG dt = Inr s'
           \<and> 0 \<le> position s' \<and> 15 * position s' \<le> velocity s' \<and> 30 \<le> velocity s'"
proof -
  have acc': "\<forall>x::real. \<bar>- rnd (- x) - x\<bar> \<le> \<bar>x\<bar> / 1000"
  proof
    fix x :: real
    have "- rnd (- x) - x = - (rnd (- x) - (- x))" by simp
    then have "\<bar>- rnd (- x) - x\<bar> = \<bar>rnd (- x) - (- x)\<bar>" by (simp only: abs_minus)
    with acc [rule_format, of "- x"] show "\<bar>- rnd (- x) - x\<bar> \<le> \<bar>x\<bar> / 1000" by simp
  qed
  let ?s = "\<lparr>position = - position s, velocity = - velocity s\<rparr>"
  from inv have "0 \<le> position ?s" "15 * position ?s \<le> velocity ?s" "30 \<le> velocity ?s"
    by simp_all
  from default_step_from_positive [of "\<lambda>x. - rnd (- x)", OF acc' dt this]
  obtain s' where step: "stepSpring_rnd (\<lambda>x. - rnd (- x)) ?s 0 DEFAULT_SPRING_CONFIG dt = Inr s'"
    and s': "position s' \<le> 0" "velocity s' \<le> 15 * position s'" "velocity s' \<le> - 30"
    by blast
  from step have "stepSpring_rnd rnd s 0 DEFAULT_SPRING_CONFIG dt
           = Inr \<lparr>position = - position s', velocity = - velocity s'\<rparr>"
    by (rule stepSpring_rnd_default_reflect)
  with s' show ?thesis by simp
qed

lemma default_second_step:
  assumes acc: "\<forall>x::real. \<bar>rnd x - x\<bar> \<le> \<bar>x\<bar> / 1000"
    and dt: "333 / 10000 \<le> dt" "dt \<le> 334 / 10000"
    and inv: "0 \<le> position s" "200 * position s \<le> - velocity s" "velocity s \<le> - 25"
  shows "\<exists>s'. stepSpring_rnd rnd s 0 DEFAULT_SPRING_CONFIG dt = Inr s'
           \<and> 0 \<le> position s' \<and> 15 * position s' \<le> velocity s' \<and> 30 \<le> velocity s'"
proof -
  define p where "p = position s"
  define v where "v = velocity s"
  define a1 where "a1 = rnd p"
  define sf where "sf = rnd (- (800 * a1))"
  define df where "df = rnd (- (80 * v))"
  define sm where "sm = rnd (sf + df)"
  define ac where "ac = rnd sm"
  define inc where "inc = rnd (ac * dt)"
  define v' where "v' = rnd (v + inc)"
  define pinc where "pinc = rnd (v' * dt)"
  define p' where "p' = rnd (p + pinc)"
  have step: "stepSpring_rnd rnd s 0 DEFAULT_SPRING_CONFIG dt = Inr \<lparr>position = p', velocity = v'\<rparr>"
    unfolding stepSpring_rnd_default p'_def pinc_def v'_def inc_def ac_def sm_def sf_def df_def
      a1_def p_def v_def ..
  have p0: "0 \<le> p" and pv: "200 * p \<le> - v" and v25: "v \<le> - 25"
    using inv by (simp_all add: p_def v_def)
  have a1l: "999 / 1000 * p \<le> a1"
    unfolding a1_def using acc p0 by (rule rnd_nonneg)
  have a1h: "a1 \<le> 1001 / 1000 * p"
    unfolding a1_def using acc p0 by (rule rnd_nonneg)
  have "- (800 * a1) \<le> 0" using a1l p0 by argo
  with acc have "1001 / 1000 * (- (800 * a1)) \<le> sf"
    unfolding sf_def by (rule rnd_nonpos)
  with a1h p0 have sf: "- 802 * p \<le> sf" by argo
  have "0 \<le> - (80 * v)" using v25 by argo
  with acc have "999 / 1000 * (- (80 * v)) \<le> df"
    unfolding df_def by (rule rnd_nonneg)
  then have df: "- (799 / 10) * v \<le> df" using v25 by argo
  have "0 \<le> sf + df" using sf df p0 pv v25 by argo
  with acc have "999 / 1000 * (sf + df) \<le> sm"
    unfolding sm_def by (rule rnd_nonneg)
  with sf df p0 v25 have sm: "- 802 * p - (798 / 10) * v \<le> sm" by argo
  then have "0 \<le> sm" using p0 pv v25 by argo
  with acc have "999 / 1000 * sm \<le> ac"
    unfolding ac_def by (rule rnd_nonneg)
  with sm p0 v25 have ac: "- 802 * p - (797 / 10) * v \<le> ac" by argo
  then have ac0: "0 \<le> ac" using p0 pv v25 by argo
  have "ac * (333 / 10000) \<le> ac * dt"
    using dt(1) ac0 by (rule mult_left_mono)
  with ac p0 v25 have X: "- (268 / 10) * p - (265 / 100) * v \<le> ac * dt" by argo
  then have "0 \<le> ac * dt" using p0 pv v25 by argo
  with acc have "999 / 1000 * (ac * dt) \<le> inc"
    unfolding inc_def by (rule rnd_nonneg)
  with X p0 v25 have inc: "- (268 / 10) * p - (264 / 100) * v \<le> inc" by argo
  then have sum: "- (3 / 2) * v \<le> v + inc" using p0 pv v25 by argo
  then have sum0: "0 \<le> v + inc" using v25 by argo
  with acc have "999 / 1000 * (v + inc) \<le> v'"
    unfolding v'_def by (rule rnd_nonneg)
  with sum v25 have v'1: "- (149 / 100) * v \<le> v'" by argo
  then have v'0: "0 \<le> v'" and v'30: "30 \<le> v'" using v25 by argo+
  have Y1: "v' * (333 / 10000) \<le> v' * dt"
    using dt(1) v'0 by (rule mult_left_mono)
  have Y2: "v' * dt \<le> v' * (334 / 10000)"
    using dt(2) v'0 by (rule mult_left_mono)
  from Y1 v'0 have Y0: "0 \<le> v' * dt" by argo
  from acc Y0 have pinc1: "999 / 1000 * (v' * dt) \<le> pinc"
    unfolding pinc_def by (rule rnd_nonneg)
  from acc Y0 have pinc2: "pinc \<le> 1001 / 1000 * (v' * dt)"
    unfolding pinc_def by (rule rnd_nonneg)
  from pinc1 Y0 p0 have psum: "0 \<le> p + pinc" by argo
  from acc psum have p'1: "999 / 1000 * (p + pinc) \<le> p'"
    unfolding p'_def by (rule rnd_nonneg)
  from acc psum have p'2: "p' \<le> 1001 / 1000 * (p + pinc)"
    unfolding p'_def by (rule rnd_nonneg)
  from p'1 psum have pos: "0 \<le> p'" by argo
  from p'2 pinc2 Y2 v'1 p0 pv v25 have ratio: "15 * p' \<le> v'" by argo
  from step pos ratio v'30 show ?thesis by simp
qed

lemma default_first_step:
  assumes acc: "\<forall>x::real. \<bar>rnd x - x\<bar> \<le> \<bar>x\<bar> / 1000"
    and dt: "333 / 10000 \<le> dt" "dt \<le> 334 / 10000"
  shows "\<exists>s'. stepSpring_rnd rnd \<lparr>position = 1, velocity = 0\<rparr> 0 DEFAULT_SPRING_CONFIG dt = Inr s'
           \<and> 0 \<le> position s' \<and> 200 * position s' \<le> - velocity s' \<and> velocity s' \<le> - 25"
proof -
  define p :: real where "p = 1"
  define v :: real where "v = 0"
  define a1 where "a1 = rnd p"
  define sf where "sf = rnd (- (800 * a1))"
  define df where "df = rnd (- (80 * v))"
  define sm where "sm = rnd (sf + df)"
  define ac where "ac = rnd sm"
  define inc where "inc = rnd (ac * dt)"
  define v' where "v' = rnd (v + inc)"
  define pinc where "pinc = rnd (v' * dt)"
  define p' where "p' = rnd (p + pinc)"
  have step: "stepSpring_rnd rnd \<lparr>position = 1, velocity = 0\<rparr> 0 DEFAULT_SPRING_CONFIG dt
                = Inr \<lparr>position = p', velocity = v'\<rparr>"
    unfolding stepSpring_rnd_default p'_def pinc_def v'_def inc_def ac_def sm_def sf_def df_def
      a1_def p_def v_def by simp
  have p1: "p = 1" and v0: "v = 0" by (simp_all add: p_def v_def)
  have p0: "0 \<le> p" by (simp add: p_def)
  have a1l: "999 / 1000 * p \<le> a1"
    unfolding a1_def using acc p0 by (rule rnd_nonneg)
  have a1h: "a1 \<le> 1001 / 1000 * p"
    unfolding a1_def using acc p0 by (rule rnd_nonneg)
  have x1: "- (800 * a1) \<le> 0" using a1l p1 by argo
  from acc x1 have "1001 / 1000 * (- (800 * a1)) \<le> sf"
    unfolding sf_def by (rule rnd_nonpos)
  with a1h p1 have sfl: "- 8017 / 10 \<le> sf" by argo
  from acc x1 have "sf \<le> 999 / 1000 * (- (800 * a1))"
    unfolding sf_def by (rule rnd_nonpos)
  with a1l p1 have sfh: "sf \<le> - 7984 / 10" by argo
  have x2: "- (80 * v) \<le> 0" "0 \<le> - (80 * v)" using v0 by simp_all
  from acc x2(1) have "df \<le> 999 / 1000 * (- (80 * v))"
    unfolding df_def by (rule rnd_nonpos)
  moreover from acc x2(2) have "999 / 1000 * (- (80 * v)) \<le> df"
    unfolding df_def by (rule rnd_nonneg)
  ultimately have df: "df = 0" using v0 by argo
  have x3: "sf + df \<le> 0" using sfh df by argo
  from acc x3 have "1001 / 1000 * (sf + df) \<le> sm"
    unfolding sm_def by (rule rnd_nonpos)
  with sfl df have sml: "- 8026 / 10 \<le> sm" by argo
  from acc x3 have "sm \<le> 999 / 1000 * (sf + df)"
    unfolding sm_def by (rule rnd_nonpos)
  with sfh df have smh: "sm \<le> - 7976 / 10" by argo
  then have x4: "sm \<le> 0" by argo
  from acc x4 have "1001 / 1000 * sm \<le> ac"
    unfolding ac_def by (rule rnd_nonpos)
  with sml have acl: "- 8035 / 10 \<le> ac" by argo
  from acc x4 have "ac \<le> 999 / 1000 * sm"
    unfolding ac_def by (rule rnd_nonpos)
  with smh have ach: "ac \<le> - 7968 / 10" by argo
  then have ac0: "ac \<le> 0" by argo
  have "ac * (334 / 10000) \<le> ac * dt"
    using dt(2) ac0 by (rule mult_left_mono_neg)
  with acl have Xl: "- 2684 / 100 \<le> ac * dt" by argo
  have "ac * dt \<le> ac * (333 / 10000)"
    using dt(1) ac0 by (rule mult_left_mono_neg)
  with ach have Xh: "ac * dt \<le> - 2653 / 100" by argo
  then have x5: "ac * dt \<le> 0" by argo
  from acc x5 have "1001 / 1000 * (ac * dt) \<le> inc"
    unfolding inc_def by (rule rnd_nonpos)
  with Xl have incl: "- 2687 / 100 \<le> inc" by argo
  from acc x5 have "inc \<le> 999 / 1000 * (ac * dt)"
    unfolding inc_def by (rule rnd_nonpos)
  with Xh have inch: "inc \<le> - 2650 / 100" by argo
  then have x6: "v + inc \<le> 0" using v0 by argo
  from acc x6 have "1001 / 1000 * (v + inc) \<le> v'"
    unfolding v'_def by (rule rnd_nonpos)
  with incl v0 have v'l: "- 2690 / 100 \<le> v'" by argo
  from acc x6 have "v' \<le> 999 / 1000 * (v + inc)"
    unfolding v'_def by (rule rnd_nonpos)
  with inch v0 have v'h: "v' \<le> - 2647 / 100" by argo
  then have v'0: "v' \<le> 0" by argo
  have "v' * (334 / 10000) \<le> v' * dt"
    using dt(2) v'0 by (rule mult_left_mono_neg)
  with v'l have Yl: "- 8985 / 10000 \<le> v' * dt" by argo
  have "v' * dt \<le> v' * (333 / 10000)"
    using dt(1) v'0 by (rule mult_left_mono_neg)
  with v'h have Yh: "v' * dt \<le> - 8814 / 10000" by argo
  then have x7: "v' * dt \<le> 0" by argo
  from acc x7 have "1001 / 1000 * (v' * dt) \<le> pinc"
    unfolding pinc_def by (rule rnd_nonpos)
  with Yl have pincl: "- 8994 / 10000 \<le> pinc" by argo
  from acc x7 have "pinc \<le> 999 / 1000 * (v' * dt)"
    unfolding pinc_def by (rule rnd_nonpos)
  with Yh have pinch: "pinc \<le> - 8805 / 10000" by argo
  from pincl p1 have x8: "0 \<le> p + pinc" by argo
  from acc x8 have "999 / 1000 * (p + pinc) \<le> p'"
    unfolding p'_def by (rule rnd_nonneg)
  with x8 have pos: "0 \<le> p'" by argo
  from acc x8 have "p' \<le> 1001 / 1000 * (p + pinc)"
    unfolding p'_def by (rule rnd_nonneg)
  with pinch p1 have "p' \<le> 12 / 100" by argo
  with v'h have ratio: "200 * p' \<le> - v'" by argo
  from v'h have v25: "v' \<le> - 25" by argo
  from step pos ratio v25 show ?thesis by simp
qed

lemma default_config_30fps_grows_rnd:
  assumes acc: "\<forall>x::real. \<bar>rnd x - x\<bar> \<le> \<bar>x\<bar> / 1000"
    and dt: "333 / 10000 \<le> dt" "dt \<le> 334 / 10000"
  shows "\<exists>st. stepSpringTimes_rnd rnd (Suc (Suc n)) \<lparr>position = 1, velocity = 0\<rparr> 0
           DEFAULT_SPRING_CONFIG dt = Inr st
        \<and> (0 \<le> position st \<and> 15 * position st \<le> velocity st \<and> 30 \<le> velocity st
           \<or> position st \<le> 0 \<and> velocity st \<le> 15 * position st \<and> velocity st \<le> - 30)"
proof (induction n)
  case 0
  from default_first_step [OF acc dt] obtain s1 where
    s1: "stepSpring_rnd rnd \<lparr>position = 1, velocity = 0\<rparr> 0 DEFAULT_SPRING_CONFIG dt = Inr s1"
    and r1: "0 \<le> position s1" "200 * position s1 \<le> - velocity s1" "velocity s1 \<le> - 25"
    by blast
  from default_second_step [OF acc dt r1] obtain s2 where
    s2: "stepSpring_rnd rnd s1 0 DEFAULT_SPRING_CONFIG dt = Inr s2"
    and r2: "0 \<le> position s2" "15 * position s2 \<le> velocity s2" "30 \<le> velocity s2"
    by blast
  from s1 s2 have "stepSpringTimes_rnd rnd (Suc (Suc 0)) \<lparr>position = 1, velocity = 0\<rparr> 0
           DEFAULT_SPRING_CONFIG dt = Inr s2"
    by simp
  with r2 show ?case by blast
next
  case (Suc n)
  then obtain st where run: "stepSpringTimes_rnd rnd (Suc (Suc n)) \<lparr>position = 1, velocity = 0\<rparr> 0
           DEFAULT_SPRING_CONFIG dt = Inr st"
    and inv: "0 \<le> position st \<and> 15 * position st \<le> velocity st \<and> 30 \<le> velocity st
           \<or> position st \<le> 0 \<and> velocity st \<le> 15 * position st \<and> velocity st \<le> - 30"
    by blast
  from inv show ?case
  proof
    assume "0 \<le> position st \<and> 15 * position st \<le> velocity st \<and> 30 \<le> velocity st"
    then have "0 \<le> position st" "15 * position st \<le> velocity st" "30 \<le> velocity st"
      by simp_all
    from default_step_from_positive [OF acc dt this] obtain s' where
      "stepSpring_rnd rnd st 0 DEFAULT_SPRING_CONFIG dt = Inr s'"
      "position s' \<le> 0" "velocity s' \<le> 15 * position s'" "velocity s' \<le> - 30"
      by blast
    then show ?thesis
      by (intro exI [of _ s']) (simp only: stepSpringTimes_rnd.simps(2) [of rnd "Suc (Suc n)"] run sum.case, simp)
  next
    assume "position st \<le> 0 \<and> velocity st \<le> 15 * position st \<and> velocity st \<le> - 30"
    then have "position st \<le> 0" "velocity st \<le> 15 * position st" "velocity st \<le> - 30"
      by simp_all
    from default_step_from_negative [OF acc dt this] obtain s' where
      "stepSpring_rnd rnd st 0 DEFAULT_SPRING_CONFIG dt = Inr s'"
      "0 \<le> position s'" "15 * position s' \<le> velocity s'" "30 \<le> velocity s'"
      by blast
    then show ?thesis
      by (intro exI [of _ s']) (simp only: stepSpringTimes_rnd.simps(2) [of rnd "Suc (Suc n)"] run sum.case, simp)
  qed
qed

text \<open>
  The step the batch resampler uses at 30 frames per second, \<open>(1000 / 30) / 1000\<close> with both
  quotients rounded to doubles, lies between 0.0333 and 0.0334.
\<close>

lemma default_dt_bounds:
  "333 / 10000 \<le> toDouble (toDouble (1000 / 30) / 1000)
   \<and> toDouble (toDouble (1000 / 30) / 1000) \<le> 334 / 10000"
proof -
  define y :: real where "y = 4691249611844267 / 2 ^ 47 / 1000"
  have e: "toDouble (toDouble (1000 / 30) / 1000) = toDouble y"
    by (simp only: toDouble_1000_30 y_def)
  have y: "3333 / 100000 \<le> y" "y \<le> 3334 / 100000" by (simp_all add: y_def)
  then have "\<bar>y\<bar> / 2 ^ 53 \<le> 1 / 100000" by simp
  with toDouble_error [of y] have "\<bar>toDouble y - y\<bar> \<le> 1 / 100000" by linarith
  with y show ?thesis unfolding e by linarith
qed

text \<open>
  In exact arithmetic and with \<open>dt = 1 / 30\<close> the default configuration takes the spring from
  position 1 to \<open>1 / 9\<close>, \<open>121 / 81\<close>, \<open>- 1559 / 729\<close>, \<open>38161 / 6561\<close> and \<open>- 744719 / 59049\<close>:
  about 0.11, 1.49, -2.14, 5.82 and -12.6.
\<close>

lemma default_config_30fps_exact_steps:
  "stepSpringTimes_rnd (\<lambda>x. x) 5 \<lparr>position = 1, velocity = 0\<rparr> 0 DEFAULT_SPRING_CONFIG (1 / 30)
     = Inr \<lparr>position = - 744719 / 59049, velocity = - 10881680 / 19683\<rparr>"
  by (simp add: eval_nat_numeral stepSpring_rnd_def jsdiv_def DEFAULT_SPRING_CONFIG_def)

text \<open>
  Without damping (stiffness 1, damping 0, mass 1, \<open>dt = 1\<close>) the spring released at rest one
  unit from its target runs through a cycle of six states for ever, for every rounding
  function that leaves -1, 0 and 1 unchanged.
\<close>

lemma undamped_cycle:
  assumes "rnd (- 1) = - 1" "rnd 0 = 0" "rnd 1 = 1"
  shows "\<exists>st. stepSpringTimes_rnd rnd n \<lparr>position = 1, velocity = 0\<rparr> 0
           \<lparr>stiffness = 1, damping = 0, mass = 1\<rparr> 1 = Inr st
        \<and> st \<in> {\<lparr>position = 1, velocity = 0\<rparr>, \<lparr>position = 0, velocity = - 1\<rparr>,
                  \<lparr>position = - 1, velocity = - 1\<rparr>, \<lparr>position = - 1, velocity = 0\<rparr>,
                  \<lparr>position = 0, velocity = 1\<rparr>, \<lparr>position = 1, velocity = 1\<rparr>}"
proof (induction n)
  case 0
  show ?case by simp
next
  case (Suc n)
  then obtain st where run: "stepSpringTimes_rnd rnd n \<lparr>position = 1, velocity = 0\<rparr> 0
           \<lparr>stiffness = 1, damping = 0, mass = 1\<rparr> 1 = Inr st"
    and st: "st \<in> {\<lparr>position = 1, velocity = 0\<rparr>, \<lparr>position = 0, velocity = - 1\<rparr>,
                  \<lparr>position = - 1, velocity = - 1\<rparr>, \<lparr>position = - 1, velocity = 0\<rparr>,
                  \<lparr>position = 0, velocity = 1\<rparr>, \<lparr>position = 1, velocity = 1\<rparr>}"
    by blast
  from st show ?case
    by (auto simp: run stepSpring_rnd_def jsdiv_def assms Let_def)
qed

lemma undamped_never_settles:
  assumes "rnd (- 1) = - 1" "rnd 0 = 0" "rnd 1 = 1"
  shows "\<not> settledAfter_rnd rnd n \<lparr>position = 1, velocity = 0\<rparr> 0
             \<lparr>stiffness = 1, damping = 0, mass = 1\<rparr> 1 (1 / 10)"
  using undamped_cycle [OF assms, of n]
  by (auto simp: settledAfter_rnd_def isSpringSettled_rnd_def assms)


section \<open>Batch and incremental mode\<close>




text \<open>
  The ordering of the stream is needed as well.  In the stream below the second sample is
  out of order; the scan stops in front of it and never reaches the third sample, while the
  latest sample not after 100 ms is the third one.  The two trajectories differ in frame 1.
\<close>

lemma unordered_stream_disagrees:
  "smoothMouseMoves
     [\<lparr>move_x = 0, move_y = 0, move_cursorId = ''arrow'', processTimeMs = 0\<rparr>,
      \<lparr>move_x = 100, move_y = 0, move_cursorId = ''arrow'', processTimeMs = 500\<rparr>,
      \<lparr>move_x = 1, move_y = 0, move_cursorId = ''arrow'', processTimeMs = 100\<rparr>,
      \<lparr>move_x = 2, move_y = 0, move_cursorId = ''arrow'', processTimeMs = 150\<rparr>]
     DEFAULT_SPRING_CONFIG 10
     = Inr [\<lparr>pos_x = 0, pos_y = 0, rawX = 0, rawY = 0, pos_cursorId = ''arrow''\<rparr>,
            \<lparr>pos_x = 0, pos_y = 0, rawX = 0, rawY = 0, pos_cursorId = ''arrow''\<rparr>]
   \<and> incrementalTrajectory
     [\<lparr>move_x = 0, move_y = 0, move_cursorId = ''arrow'', processTimeMs = 0\<rparr>,
      \<lparr>move_x = 100, move_y = 0, move_cursorId = ''arrow'', processTimeMs = 500\<rparr>,
      \<lparr>move_x = 1, move_y = 0, move_cursorId = ''arrow'', processTimeMs = 100\<rparr>,
      \<lparr>move_x = 2, move_y = 0, move_cursorId = ''arrow'', processTimeMs = 150\<rparr>]
     DEFAULT_SPRING_CONFIG 10 [0, 100]
     = Some (Inr [\<lparr>pos_x = 0, pos_y = 0, rawX = 0, rawY = 0, pos_cursorId = ''arrow''\<rparr>,
                  \<lparr>pos_x = 8, pos_y = 0, rawX = 1, rawY = 0, pos_cursorId = ''arrow''\<rparr>])"
proof (intro conjI)
  show "smoothMouseMoves
     [\<lparr>move_x = 0, move_y = 0, move_cursorId = ''arrow'', processTimeMs = 0\<rparr>,
      \<lparr>move_x = 100, move_y = 0, move_cursorId = ''arrow'', processTimeMs = 500\<rparr>,
      \<lparr>move_x = 1, move_y = 0, move_cursorId = ''arrow'', processTimeMs = 100\<rparr>,
      \<lparr>move_x = 2, move_y = 0, move_cursorId = ''arrow'', processTimeMs = 150\<rparr>]
     DEFAULT_SPRING_CONFIG 10
     = Inr [\<lparr>pos_x = 0, pos_y = 0, rawX = 0, rawY = 0, pos_cursorId = ''arrow''\<rparr>,
            \<lparr>pos_x = 0, pos_y = 0, rawX = 0, rawY = 0, pos_cursorId = ''arrow''\<rparr>]"
    by (simp add: eval_defs frameLoop.simps advanceRawIndex.simps)
  show "incrementalTrajectory
     [\<lparr>move_x = 0, move_y = 0, move_cursorId = ''arrow'', processTimeMs = 0\<rparr>,
      \<lparr>move_x = 100, move_y = 0, move_cursorId = ''arrow'', processTimeMs = 500\<rparr>,
      \<lparr>move_x = 1, move_y = 0, move_cursorId = ''arrow'', processTimeMs = 100\<rparr>,
      \<lparr>move_x = 2, move_y = 0, move_cursorId = ''arrow'', processTimeMs = 150\<rparr>]
     DEFAULT_SPRING_CONFIG 10 [0, 100]
     = Some (Inr [\<lparr>pos_x = 0, pos_y = 0, rawX = 0, rawY = 0, pos_cursorId = ''arrow''\<rparr>,
                  \<lparr>pos_x = 8, pos_y = 0, rawX = 1, rawY = 0, pos_cursorId = ''arrow''\<rparr>])"
    by (simp add: incrementalTrajectory_def nearestPrecedingSample_def freshSmootherAt_def eval_defs)
qed

text \<open>
  The agreement does not rest on exact arithmetic.  With every arithmetic result rounded by
  a monotone rounding function, the batch output is again the trajectory of the updates
  toward the same targets, taken at the frame times the batch computes.
\<close>

lemma batch_incremental_agreement_rounded:
  assumes ne: "moves \<noteq> []" and nd: "nonDecreasing moves"
    and rnd: "mono rnd"
    and fps0: "outputFps \<noteq> 0" and fd: "0 < rnd (1000 / outputFps)"
    and m: "mass cfg \<noteq> 0"
  shows "\<exists>frameTimes frames.
           outputFrameTimes_rnd rnd moves outputFps = Inr frameTimes
         \<and> smoothMouseMoves_rnd rnd moves cfg outputFps = Inr frames
         \<and> driveSmoother_rnd rnd (freshSmootherAt cfg (hd moves))
               (map (targetSample moves) frameTimes) (rnd (rnd (1000 / outputFps) / 1000))
             = Inr frames
         \<and> length frames = length frameTimes"
proof -
  let ?fd = "rnd (1000 / outputFps)"
  let ?fc = "max 1 \<lceil>rnd (processTimeMs (last moves) / ?fd)\<rceil>"
  let ?times = "map (\<lambda>frame. rnd (of_int frame * ?fd)) [0..?fc - 1]"
  from fd have fd0: "?fd \<noteq> 0" and fd1: "0 \<le> ?fd" by simp_all
  have times: "outputFrameTimes_rnd rnd moves outputFps = Inr ?times"
    using ne fps0 fd0
    by (simp add: outputFrameTimes_rnd_def frameCountOf_rnd_def jsdiv_def last_conv_nth Let_def)
  have "smoothMouseMoves_rnd rnd moves cfg outputFps
      = driveSmoother_rnd rnd (freshSmootherAt cfg (hd moves))
          (map ((!) moves) (frameRawIndices_rnd rnd moves ?fd ?fc 0 0)) (rnd (?fd / 1000))"
    using ne fps0 fd0
    by (simp add: smoothMouseMoves_rnd_unfold [where rnd = rnd] freshSmootherAt_def)
  then have eq: "smoothMouseMoves_rnd rnd moves cfg outputFps
      = driveSmoother_rnd rnd (freshSmootherAt cfg (hd moves))
          (map (targetSample moves) ?times) (rnd (?fd / 1000))"
    by (simp only: frameRawIndices_rnd_targets [OF nd fd1 rnd ne])
  from ne fps0 fd0 m smoothMouseMoves_rnd_length [where rnd = rnd and moves = moves
      and outputFps = outputFps and cfg = cfg]
  obtain frames where
    fr: "smoothMouseMoves_rnd rnd moves cfg outputFps = Inr frames"
    and len: "int (length frames) = ?fc"
    by blast
  from len have len': "length frames = length ?times" by simp
  from fr eq have "driveSmoother_rnd rnd (freshSmootherAt cfg (hd moves))
          (map (targetSample moves) ?times) (rnd (?fd / 1000)) = Inr frames"
    by simp
  with times fr len' show ?thesis by blast
qed


section \<open>Teleport\<close>



section \<open>Frame count\<close>

text \<open>
  C3, in the form that holds.  For every non-empty raw stream, every spring configuration
  with a non-zero mass and every non-zero output frame rate, the batch resampler returns
  \<open>max 1 (ceil (lastSample.processTimeMs / (1000 / outputFps)))\<close> frames, where the two
  divisions are the program's: each quotient is rounded before it is used.  The count has a
  floor of one.  The rounding function is arbitrary; the rounded frame duration is assumed
  not to be zero, as the division by it requires.
\<close>

theorem frame_count_law:
  assumes "moves \<noteq> []" and "outputFps \<noteq> 0" and "rnd (1000 / outputFps) \<noteq> 0"
    and "mass cfg \<noteq> 0"
  shows "\<exists>frames. smoothMouseMoves_rnd rnd moves cfg outputFps = Inr frames
           \<and> int (length frames)
               = max 1 \<lceil>rnd (processTimeMs (last moves) / rnd (1000 / outputFps))\<rceil>"
  using assms by (rule smoothMouseMoves_rnd_length)

text \<open>
  With the rounding of doubles: at 24 frames per second a stream whose last sample is at
  2625 ms gives 64 frames, because the rounded quotient is \<open>63 + 1 / 2 ^ 47\<close>, where the exact
  quotient is 63; at 61 frames per second a stream that ends at 1000 ms gives 62 frames.
\<close>

theorem frame_count_law_witness:
  "(\<exists>frames.
      smoothMouseMoves_rnd toDouble
        [\<lparr>move_x = 0, move_y = 0, move_cursorId = ''arrow'', processTimeMs = 0\<rparr>,
         \<lparr>move_x = 100, move_y = 0, move_cursorId = ''arrow'', processTimeMs = 2625\<rparr>]
        DEFAULT_SPRING_CONFIG 24 = Inr frames
    \<and> int (length frames) = 64)
   \<and> (\<exists>frames.
      smoothMouseMoves_rnd toDouble
        [\<lparr>move_x = 0, move_y = 0, move_cursorId = ''arrow'', processTimeMs = 0\<rparr>,
         \<lparr>move_x = 100, move_y = 0, move_cursorId = ''arrow'', processTimeMs = 1000\<rparr>]
        DEFAULT_SPRING_CONFIG 61 = Inr frames
    \<and> int (length frames) = 62)"
proof
  have e: "toDouble (2625 / toDouble (1000 / 24)) = 63 + 1 / 2 ^ 47"
    by (simp only: toDouble_1000_24 toDouble_2625_24)
  have "max 1 \<lceil>toDouble (2625 / toDouble (1000 / 24))\<rceil> = 64"
    unfolding e by simp
  moreover have "toDouble (1000 / 24) \<noteq> 0"
    using toDouble_pos [of "1000 / 24"] by simp
  ultimately show "\<exists>frames.
      smoothMouseMoves_rnd toDouble
        [\<lparr>move_x = 0, move_y = 0, move_cursorId = ''arrow'', processTimeMs = 0\<rparr>,
         \<lparr>move_x = 100, move_y = 0, move_cursorId = ''arrow'', processTimeMs = 2625\<rparr>]
        DEFAULT_SPRING_CONFIG 24 = Inr frames
    \<and> int (length frames) = 64"
    using frame_count_law [of
        "[\<lparr>move_x = 0, move_y = 0, move_cursorId = ''arrow'', processTimeMs = 0\<rparr>,
         \<lparr>move_x = 100, move_y = 0, move_cursorId = ''arrow'', processTimeMs = 2625\<rparr>]"
        24 toDouble DEFAULT_SPRING_CONFIG]
    by (simp add: DEFAULT_SPRING_CONFIG_def)
  have e: "toDouble (1000 / toDouble (1000 / 61)) = 61 + 1 / 2 ^ 47"
    by (simp only: toDouble_1000_61 toDouble_1000_61')
  have "max 1 \<lceil>toDouble (1000 / toDouble (1000 / 61))\<rceil> = 62"
    unfolding e by simp
  moreover have "toDouble (1000 / 61) \<noteq> 0"
    using toDouble_pos [of "1000 / 61"] by simp
  ultimately show "\<exists>frames.
      smoothMouseMoves_rnd toDouble
        [\<lparr>move_x = 0, move_y = 0, move_cursorId = ''arrow'', processTimeMs = 0\<rparr>,
         \<lparr>move_x = 100, move_y = 0, move_cursorId = ''arrow'', processTimeMs = 1000\<rparr>]
        DEFAULT_SPRING_CONFIG 61 = Inr frames
    \<and> int (length frames) = 62"
    using frame_count_law [of
        "[\<lparr>move_x = 0, move_y = 0, move_cursorId = ''arrow'', processTimeMs = 0\<rparr>,
         \<lparr>move_x = 100, move_y = 0, move_cursorId = ''arrow'', processTimeMs = 1000\<rparr>]"
        61 toDouble DEFAULT_SPRING_CONFIG]
    by (simp add: DEFAULT_SPRING_CONFIG_def)
qed

text \<open>
  Without the floor the law fails, with the rounding of doubles as in exact arithmetic: for
  a stream whose last sample is at 0 ms the quotient is 0, and its ceiling is 0, but one
  frame is emitted.
\<close>

theorem frame_count_law_counterexample:
  "smoothMouseMoves_rnd toDouble
     [\<lparr>move_x = 40, move_y = 30, move_cursorId = ''arrow'', processTimeMs = 0\<rparr>]
     DEFAULT_SPRING_CONFIG 30
     = Inr [\<lparr>pos_x = 40, pos_y = 30, rawX = 40, rawY = 30, pos_cursorId = ''arrow''\<rparr>]
   \<and> int (length [\<lparr>pos_x = 40, pos_y = 30, rawX = 40, rawY = 30, pos_cursorId = ''arrow''\<rparr>])
       \<noteq> \<lceil>toDouble (processTimeMs
             (last [\<lparr>move_x = 40, move_y = 30, move_cursorId = ''arrow'', processTimeMs = 0\<rparr>])
           / toDouble (1000 / 30))\<rceil>
   \<and> smoothMouseMoves [\<lparr>move_x = 40, move_y = 30, move_cursorId = ''arrow'', processTimeMs = 0\<rparr>]
     DEFAULT_SPRING_CONFIG 30
     = Inr [\<lparr>pos_x = 40, pos_y = 30, rawX = 40, rawY = 30, pos_cursorId = ''arrow''\<rparr>]
   \<and> int (length [\<lparr>pos_x = 40, pos_y = 30, rawX = 40, rawY = 30, pos_cursorId = ''arrow''\<rparr>])
       \<noteq> \<lceil>processTimeMs
             (last [\<lparr>move_x = 40, move_y = 30, move_cursorId = ''arrow'', processTimeMs = 0\<rparr>])
           / (1000 / 30)\<rceil>"
proof -
  have fd: "toDouble (100 / 3) \<noteq> 0"
    using toDouble_pos [of "100 / 3"] by simp
  have "smoothMouseMoves_rnd toDouble
     [\<lparr>move_x = 40, move_y = 30, move_cursorId = ''arrow'', processTimeMs = 0\<rparr>]
     DEFAULT_SPRING_CONFIG 30
     = Inr [\<lparr>pos_x = 40, pos_y = 30, rawX = 40, rawY = 30, pos_cursorId = ''arrow''\<rparr>]"
    by (simp add: smoothMouseMoves_rnd_def frameCountOf_rnd_def jsdiv_def reset_def
        newCursorSmoother_def DEFAULT_TELEPORT_THRESHOLD_def DEFAULT_SPRING_CONFIG_def
        update_rnd_def stepSpring2D_rnd_def stepSpring_rnd_def createSpring2D_def
        createSpringState_def Let_def frameLoop_rnd.simps advanceRawIndex.simps fd
        toDouble_numeral)
  moreover have "smoothMouseMoves
     [\<lparr>move_x = 40, move_y = 30, move_cursorId = ''arrow'', processTimeMs = 0\<rparr>]
     DEFAULT_SPRING_CONFIG 30
     = Inr [\<lparr>pos_x = 40, pos_y = 30, rawX = 40, rawY = 30, pos_cursorId = ''arrow''\<rparr>]"
    by (simp add: eval_defs frameLoop.simps advanceRawIndex.simps)
  ultimately show ?thesis by simp
qed

section \<open>The spring step\<close>

text \<open>
  C4.  For every state, target and step size, and every configuration whose mass is not
  zero, \<open>stepSpring\<close> returns the state given by the semi-implicit Euler formulas: the new
  velocity is the old one plus acceleration times \<open>dt\<close>, where the acceleration is the sum of
  the spring force \<open>- stiffness * (position - target)\<close> and the damping force
  \<open>- damping * velocity\<close> divided by the mass, and the new position is the old position plus
  the new velocity times \<open>dt\<close>.
\<close>

theorem stepSpring_semi_implicit_euler:
  assumes "mass cfg \<noteq> 0"
  shows "\<exists>s'. stepSpring s target cfg dt = Inr s'
           \<and> velocity s' = velocity s
               + ((- stiffness cfg * (position s - target) + - damping cfg * velocity s) / mass cfg) * dt
           \<and> position s' = position s + velocity s' * dt"
  using assms by (simp add: stepSpring_def jsdiv_def Let_def)

theorem stepSpring_semi_implicit_euler_witness:
  "mass DEFAULT_SPRING_CONFIG \<noteq> 0
   \<and> stepSpring \<lparr>position = 0, velocity = 0\<rparr> 100 DEFAULT_SPRING_CONFIG (1 / 100)
       = Inr \<lparr>position = 8, velocity = 800\<rparr>"
proof -
  have m: "mass DEFAULT_SPRING_CONFIG \<noteq> 0"
    by (simp add: DEFAULT_SPRING_CONFIG_def)
  from stepSpring_semi_implicit_euler [OF m, of "\<lparr>position = 0, velocity = 0\<rparr>" 100 "1 / 100"]
  obtain s' where s': "stepSpring \<lparr>position = 0, velocity = 0\<rparr> 100 DEFAULT_SPRING_CONFIG (1 / 100) = Inr s'"
    and v: "velocity s' = 800" and p: "position s' = 0 + velocity s' * (1 / 100)"
    by (auto simp: DEFAULT_SPRING_CONFIG_def)
  from v p have "s' = \<lparr>position = 8, velocity = 800\<rparr>" by simp
  with s' m show ?thesis by simp
qed

section \<open>Target selection\<close>

text \<open>
  C5, in the form that holds.  For every non-empty raw stream whose \<open>processTimeMs\<close> never
  decreases (with a non-zero mass and an output frame rate whose rounded frame duration
  \<open>1000 / outputFps\<close> is positive), every output frame \<open>f\<close> of the batch resampler carries the
  raw position and cursor of the sample at the raw index the loop holds in that iteration;
  that sample has \<open>processTimeMs\<close> at most the frame's time, or it is the first sample of the
  stream; and every later raw sample is after the frame's time.  The frame's time is the
  value the program computes, the rounded product \<open>f * (1000 / outputFps)\<close> of the rounded
  frame duration.  The rounding function is any monotone function.
\<close>

theorem nearest_preceding_law:
  assumes ne: "moves \<noteq> []" and nd: "nonDecreasing moves"
    and rnd: "mono rnd"
    and fps0: "outputFps \<noteq> 0" and fd: "0 < rnd (1000 / outputFps)"
    and m: "mass cfg \<noteq> 0"
  shows "\<exists>frames rawIndices.
           smoothMouseMoves_rnd rnd moves cfg outputFps = Inr frames
         \<and> targetIndices_rnd rnd moves outputFps = Inr rawIndices
         \<and> length rawIndices = length frames
         \<and> (\<forall>f < length frames.
               rawIndices ! f < length moves
             \<and> rawX (frames ! f) = move_x (moves ! (rawIndices ! f))
             \<and> rawY (frames ! f) = move_y (moves ! (rawIndices ! f))
             \<and> pos_cursorId (frames ! f) = move_cursorId (moves ! (rawIndices ! f))
             \<and> (rawIndices ! f = 0
                  \<or> processTimeMs (moves ! (rawIndices ! f))
                      \<le> rnd (of_nat f * rnd (1000 / outputFps)))
             \<and> (\<forall>j. rawIndices ! f < j \<and> j < length moves
                    \<longrightarrow> rnd (of_nat f * rnd (1000 / outputFps)) < processTimeMs (moves ! j)))"
proof -
  let ?fd = "rnd (1000 / outputFps)"
  let ?fc = "max 1 \<lceil>rnd (processTimeMs (last moves) / ?fd)\<rceil>"
  let ?idx = "frameRawIndices_rnd rnd moves ?fd ?fc 0 0"
  from fd have fd0: "?fd \<noteq> 0" and fd1: "0 \<le> ?fd" by simp_all
  have idx: "targetIndices_rnd rnd moves outputFps = Inr ?idx"
    using ne fps0 fd0 by (simp add: targetIndices_rnd_unfold [where rnd = rnd])
  from ne fps0 fd0 m smoothMouseMoves_rnd_frames [where rnd = rnd and moves = moves
      and outputFps = outputFps and cfg = cfg]
  obtain frames where fr: "smoothMouseMoves_rnd rnd moves cfg outputFps = Inr frames"
    and rel: "list_all2 (\<lambda>p i. rawX p = move_x (moves ! i) \<and> rawY p = move_y (moves ! i)
                            \<and> pos_cursorId p = move_cursorId (moves ! i)) frames ?idx"
    by blast
  from rel have len: "length frames = length ?idx" by (rule list_all2_lengthD)
  have sel: "list_all2 (\<lambda>f i. selects moves (rnd (of_int f * ?fd)) i) [0..?fc - 1] ?idx"
    using ne by (intro frameRawIndices_rnd_selects [OF nd fd1 rnd refl]) simp_all
  have each: "?idx ! f < length moves
             \<and> rawX (frames ! f) = move_x (moves ! (?idx ! f))
             \<and> rawY (frames ! f) = move_y (moves ! (?idx ! f))
             \<and> pos_cursorId (frames ! f) = move_cursorId (moves ! (?idx ! f))
             \<and> (?idx ! f = 0 \<or> processTimeMs (moves ! (?idx ! f)) \<le> rnd (of_nat f * ?fd))
             \<and> (\<forall>j. ?idx ! f < j \<and> j < length moves \<longrightarrow> rnd (of_nat f * ?fd) < processTimeMs (moves ! j))"
    if f: "f < length frames" for f
  proof -
    from f len have fi: "f < length ?idx" by simp
    then have "int f \<le> ?fc - 1" by (simp add: length_frameRawIndices_rnd)
    then have nth: "[0..?fc - 1] ! f = int f" by (simp add: nth_upto)
    from list_all2_nthD2' [OF sel fi] nth have "selects moves (rnd (of_nat f * ?fd)) (?idx ! f)"
      by simp
    moreover from list_all2_nthD [OF rel f] have
      "rawX (frames ! f) = move_x (moves ! (?idx ! f))
       \<and> rawY (frames ! f) = move_y (moves ! (?idx ! f))
       \<and> pos_cursorId (frames ! f) = move_cursorId (moves ! (?idx ! f))"
      by simp
    ultimately show ?thesis by (simp add: selects_def)
  qed
  from fr idx len each show ?thesis by auto
qed

text \<open>
  With the rounding of doubles, 19 frames per second and samples at 0, 1000 and 1100 ms:
  the time of frame 19 is \<open>1000 - 1 / 2 ^ 43\<close>, just before the second sample, so frame 19 is
  still driven by the first sample.
\<close>

theorem nearest_preceding_law_witness:
  "\<exists>frames rawIndices.
      smoothMouseMoves_rnd toDouble
        [\<lparr>move_x = 0, move_y = 0, move_cursorId = ''arrow'', processTimeMs = 0\<rparr>,
         \<lparr>move_x = 1, move_y = 0, move_cursorId = ''arrow'', processTimeMs = 1000\<rparr>,
         \<lparr>move_x = 2, move_y = 0, move_cursorId = ''arrow'', processTimeMs = 1100\<rparr>]
        DEFAULT_SPRING_CONFIG 19 = Inr frames
    \<and> targetIndices_rnd toDouble
        [\<lparr>move_x = 0, move_y = 0, move_cursorId = ''arrow'', processTimeMs = 0\<rparr>,
         \<lparr>move_x = 1, move_y = 0, move_cursorId = ''arrow'', processTimeMs = 1000\<rparr>,
         \<lparr>move_x = 2, move_y = 0, move_cursorId = ''arrow'', processTimeMs = 1100\<rparr>]
        19 = Inr rawIndices
    \<and> length frames = 21
    \<and> toDouble (19 * toDouble (1000 / 19)) < 1000
    \<and> rawIndices ! 19 = 0
    \<and> rawX (frames ! 19) = 0"
proof -
  let ?moves = "[\<lparr>move_x = 0, move_y = 0, move_cursorId = ''arrow'', processTimeMs = 0\<rparr>,
         \<lparr>move_x = 1, move_y = 0, move_cursorId = ''arrow'', processTimeMs = 1000\<rparr>,
         \<lparr>move_x = 2, move_y = 0, move_cursorId = ''arrow'', processTimeMs = 1100\<rparr>]"
  have ne: "?moves \<noteq> []" by simp
  have nd: "nonDecreasing ?moves" by (simp add: nonDecreasing_def)
  have fps: "(19::real) \<noteq> 0" by simp
  have fd: "0 < toDouble (1000 / 19)" by (rule toDouble_pos) simp
  then have fd0: "toDouble (1000 / 19) \<noteq> 0" by simp
  have m: "mass DEFAULT_SPRING_CONFIG \<noteq> 0" by (simp add: DEFAULT_SPRING_CONFIG_def)
  have lastm: "processTimeMs (last ?moves) = 1100" by simp
  have e: "toDouble (19 * toDouble (1000 / 19)) = 1000 - 1 / 2 ^ 43"
    by (simp only: toDouble_1000_19 toDouble_frame_19)
  have t19: "toDouble (19 * toDouble (1000 / 19)) < 1000"
    unfolding e by simp
  from nearest_preceding_law [OF ne nd mono_toDouble fps fd m]
  obtain frames rawIndices where
    fr: "smoothMouseMoves_rnd toDouble ?moves DEFAULT_SPRING_CONFIG 19 = Inr frames"
    and idx: "targetIndices_rnd toDouble ?moves 19 = Inr rawIndices"
    and law: "\<forall>f < length frames.
               rawIndices ! f < length ?moves
             \<and> rawX (frames ! f) = move_x (?moves ! (rawIndices ! f))
             \<and> rawY (frames ! f) = move_y (?moves ! (rawIndices ! f))
             \<and> pos_cursorId (frames ! f) = move_cursorId (?moves ! (rawIndices ! f))
             \<and> (rawIndices ! f = 0
                  \<or> processTimeMs (?moves ! (rawIndices ! f))
                      \<le> toDouble (of_nat f * toDouble (1000 / 19)))
             \<and> (\<forall>j. rawIndices ! f < j \<and> j < length ?moves
                    \<longrightarrow> toDouble (of_nat f * toDouble (1000 / 19)) < processTimeMs (?moves ! j))"
    by blast
  from ne fps fd0 m smoothMouseMoves_rnd_length [where rnd = toDouble and moves = ?moves
      and outputFps = 19 and cfg = DEFAULT_SPRING_CONFIG] fr
  have "int (length frames)
      = max 1 \<lceil>toDouble (processTimeMs (last ?moves) / toDouble (1000 / 19))\<rceil>"
    by auto
  also have "\<dots> = max 1 \<lceil>toDouble (1100 / (7407236229227789 / 2 ^ 47))\<rceil>"
    by (simp only: toDouble_1000_19 lastm)
  also have "\<dots> = 21" by (simp only: toDouble_1100_19)
  finally have len: "length frames = 21" by simp
  then have "19 < length frames" by simp
  with law have i: "rawIndices ! 19 < length ?moves"
    and x: "rawX (frames ! 19) = move_x (?moves ! (rawIndices ! 19))"
    and le: "rawIndices ! 19 = 0
                  \<or> processTimeMs (?moves ! (rawIndices ! 19))
                      \<le> toDouble (of_nat 19 * toDouble (1000 / 19))"
    by blast+
  from i have "rawIndices ! 19 < 3" by simp
  then have "rawIndices ! 19 = 0 \<or> rawIndices ! 19 = 1 \<or> rawIndices ! 19 = 2"
    by arith
  with le t19 have i0: "rawIndices ! 19 = 0" by auto
  with x have "rawX (frames ! 19) = 0" by simp
  with fr idx len t19 i0 show ?thesis by blast
qed

text \<open>
  The first part fails as stated when the stream starts after frame 0, with the rounding of
  doubles as in exact arithmetic: with a single sample at 100 ms and 10 frames per second
  the only frame has time 0 and is driven by that sample, whose \<open>processTimeMs\<close> is 100.
\<close>

theorem nearest_preceding_law_counterexample:
  "smoothMouseMoves_rnd toDouble [\<lparr>move_x = 40, move_y = 30, move_cursorId = ''arrow'', processTimeMs = 100\<rparr>]
     DEFAULT_SPRING_CONFIG 10
     = Inr [\<lparr>pos_x = 40, pos_y = 30, rawX = 40, rawY = 30, pos_cursorId = ''arrow''\<rparr>]
   \<and> outputFrameTimes_rnd toDouble
       [\<lparr>move_x = 40, move_y = 30, move_cursorId = ''arrow'', processTimeMs = 100\<rparr>] 10
     = Inr [0]
   \<and> targetIndices_rnd toDouble
       [\<lparr>move_x = 40, move_y = 30, move_cursorId = ''arrow'', processTimeMs = 100\<rparr>] 10
     = Inr [0]
   \<and> smoothMouseMoves [\<lparr>move_x = 40, move_y = 30, move_cursorId = ''arrow'', processTimeMs = 100\<rparr>]
     DEFAULT_SPRING_CONFIG 10
     = Inr [\<lparr>pos_x = 40, pos_y = 30, rawX = 40, rawY = 30, pos_cursorId = ''arrow''\<rparr>]
   \<and> outputFrameTimes
       [\<lparr>move_x = 40, move_y = 30, move_cursorId = ''arrow'', processTimeMs = 100\<rparr>] 10
     = Inr [0]
   \<and> targetIndices
       [\<lparr>move_x = 40, move_y = 30, move_cursorId = ''arrow'', processTimeMs = 100\<rparr>] 10
     = Inr [0]
   \<and> \<not> processTimeMs
         ([\<lparr>move_x = 40, move_y = 30, move_cursorId = ''arrow'', processTimeMs = 100\<rparr>] ! 0)
       \<le> 0"
proof (intro conjI)
  show "smoothMouseMoves_rnd toDouble [\<lparr>move_x = 40, move_y = 30, move_cursorId = ''arrow'', processTimeMs = 100\<rparr>]
     DEFAULT_SPRING_CONFIG 10
     = Inr [\<lparr>pos_x = 40, pos_y = 30, rawX = 40, rawY = 30, pos_cursorId = ''arrow''\<rparr>]"
    by (simp add: smoothMouseMoves_rnd_def frameCountOf_rnd_def jsdiv_def reset_def
        newCursorSmoother_def DEFAULT_TELEPORT_THRESHOLD_def DEFAULT_SPRING_CONFIG_def
        update_rnd_def stepSpring2D_rnd_def stepSpring_rnd_def createSpring2D_def
        createSpringState_def Let_def frameLoop_rnd.simps advanceRawIndex.simps
        toDouble_numeral toDouble_1)
  show "outputFrameTimes_rnd toDouble
       [\<lparr>move_x = 40, move_y = 30, move_cursorId = ''arrow'', processTimeMs = 100\<rparr>] 10
     = Inr [0]"
    by (simp add: outputFrameTimes_rnd_def frameCountOf_rnd_def jsdiv_def upto_rec1 Let_def
        toDouble_numeral toDouble_1)
  show "targetIndices_rnd toDouble
       [\<lparr>move_x = 40, move_y = 30, move_cursorId = ''arrow'', processTimeMs = 100\<rparr>] 10
     = Inr [0]"
    by (simp add: targetIndices_rnd_def frameCountOf_rnd_def jsdiv_def frameRawIndices_rnd.simps
        advanceRawIndex.simps Let_def toDouble_numeral toDouble_1)
  show "smoothMouseMoves [\<lparr>move_x = 40, move_y = 30, move_cursorId = ''arrow'', processTimeMs = 100\<rparr>]
     DEFAULT_SPRING_CONFIG 10
     = Inr [\<lparr>pos_x = 40, pos_y = 30, rawX = 40, rawY = 30, pos_cursorId = ''arrow''\<rparr>]"
    by (simp add: eval_defs frameLoop.simps advanceRawIndex.simps)
  show "outputFrameTimes
       [\<lparr>move_x = 40, move_y = 30, move_cursorId = ''arrow'', processTimeMs = 100\<rparr>] 10
     = Inr [0]"
    by (simp add: outputFrameTimes_def frameCountOf_def jsdiv_def upto_rec1)
  show "targetIndices
       [\<lparr>move_x = 40, move_y = 30, move_cursorId = ''arrow'', processTimeMs = 100\<rparr>] 10
     = Inr [0]"
    by (simp add: targetIndices_def frameCountOf_def jsdiv_def frameRawIndices.simps
        advanceRawIndex.simps)
  show "\<not> processTimeMs
         ([\<lparr>move_x = 40, move_y = 30, move_cursorId = ''arrow'', processTimeMs = 100\<rparr>] ! 0)
       \<le> 0"
    by simp
qed

section \<open>Convergence of the spring\<close>

text \<open>
  C6.  The code does not do what the claim says at the program's own defaults.  With
  \<open>DEFAULT_SPRING_CONFIG\<close> and the step \<open>dt\<close> of the default output frame rate of 30 frames per
  second, a spring released at rest one unit from its target is not settled, at the
  threshold 0.1, after any number of steps: from the second step on the velocity changes
  sign in every step and its magnitude stays above 30.  This holds for every rounding
  function that is accurate to one part in a thousand, as the rounding of doubles is, and
  for every \<open>dt\<close> between 0.0333 and 0.0334.
\<close>

theorem default_config_30fps_never_settles:
  assumes acc: "\<forall>x::real. \<bar>rnd x - x\<bar> \<le> \<bar>x\<bar> / 1000"
    and dt: "333 / 10000 \<le> dt" "dt \<le> 334 / 10000"
  shows "\<not> settledAfter_rnd rnd n \<lparr>position = 1, velocity = 0\<rparr> 0 DEFAULT_SPRING_CONFIG dt (1 / 10)"
proof -
  consider "n = 0" | "n = 1" | m where "n = Suc (Suc m)"
    by (metis One_nat_def not0_implies_Suc)
  then show ?thesis
  proof cases
    case 1
    from acc have "999 / 1000 * 1 \<le> rnd 1" by (rule rnd_nonneg) simp
    with 1 show ?thesis by (simp add: settledAfter_rnd_def isSpringSettled_rnd_def)
  next
    case 2
    from default_first_step [OF acc dt] obtain s1 where
      "stepSpring_rnd rnd \<lparr>position = 1, velocity = 0\<rparr> 0 DEFAULT_SPRING_CONFIG dt = Inr s1"
      "velocity s1 \<le> - 25"
      by blast
    with 2 show ?thesis by (simp add: settledAfter_rnd_def isSpringSettled_rnd_def)
  next
    case 3
    with default_config_30fps_grows_rnd [OF acc dt, of m] show ?thesis
      by (auto simp only: settledAfter_rnd_def isSpringSettled_rnd_def sum.case)
  qed
qed

text \<open>
  With the rounding of doubles and the \<open>dt\<close> that the batch resampler computes for 30 frames
  per second.
\<close>

theorem default_config_30fps_never_settles_witness:
  "\<forall>n. \<not> settledAfter_rnd toDouble n \<lparr>position = 1, velocity = 0\<rparr> 0 DEFAULT_SPRING_CONFIG
           (toDouble (toDouble (1000 / 30) / 1000)) (1 / 10)"
  using default_config_30fps_never_settles [OF toDouble_accurate]
    default_dt_bounds by blast

section \<open>Configuration\<close>

text \<open>
  C7, in the form that holds.  No configuration is rejected: for every configuration the
  constructor stores it unchanged, neither \<open>stepSpring\<close> nor \<open>update\<close> ends in a
  \<open>ConfigError\<close>, and whenever the mass is not zero \<open>stepSpring\<close> performs the step, also for
  a non-positive stiffness or a negative mass.
\<close>

theorem no_config_validation:
  "config (newCursorSmoother cfg threshold) = cfg
   \<and> stepSpring s target cfg dt \<noteq> Inl ConfigError
   \<and> update (newCursorSmoother cfg threshold) raw dt \<noteq> Inl ConfigError
   \<and> (mass cfg \<noteq> 0 \<longrightarrow>
        stepSpring s target cfg dt =
          Inr \<lparr>position = position s
                  + (velocity s
                     + (- stiffness cfg * (position s - target) + - damping cfg * velocity s)
                       / mass cfg * dt) * dt,
               velocity = velocity s
                  + (- stiffness cfg * (position s - target) + - damping cfg * velocity s)
                    / mass cfg * dt\<rparr>)"
  by (simp add: newCursorSmoother_def stepSpring_not_ConfigError update_not_ConfigError)
     (simp add: stepSpring_def jsdiv_def Let_def)

text \<open>A negative stiffness together with a negative mass: the step is performed.\<close>

theorem no_config_validation_witness:
  "config (newCursorSmoother \<lparr>stiffness = - 800, damping = 80, mass = - 1\<rparr> 500)
     = \<lparr>stiffness = - 800, damping = 80, mass = - 1\<rparr>
   \<and> stepSpring \<lparr>position = 0, velocity = 0\<rparr> 100
        \<lparr>stiffness = - 800, damping = 80, mass = - 1\<rparr> (1 / 100)
       = Inr \<lparr>position = 8, velocity = 800\<rparr>"
  using no_config_validation [of "\<lparr>stiffness = - 800, damping = 80, mass = - 1\<rparr>" 500
      "\<lparr>position = 0, velocity = 0\<rparr>" 100 "1 / 100"]
  by simp

text \<open>
  The statement that an invalid configuration fails with a \<open>ConfigError\<close> is false: a
  negative stiffness and a negative mass are stepped with, and a smoother constructed with
  stiffness 0 accepts its first update.
\<close>

theorem config_error_counterexample:
  "stepSpring \<lparr>position = 0, velocity = 0\<rparr> 100
      \<lparr>stiffness = - 800, damping = 80, mass = 1\<rparr> (1 / 100)
     = Inr \<lparr>position = - 8, velocity = - 800\<rparr>
   \<and> stepSpring \<lparr>position = 0, velocity = 0\<rparr> 100
      \<lparr>stiffness = 800, damping = 80, mass = - 1\<rparr> (1 / 100)
     = Inr \<lparr>position = - 8, velocity = - 800\<rparr>
   \<and> update (newCursorSmoother \<lparr>stiffness = 0, damping = 80, mass = 1\<rparr> 500)
       \<lparr>move_x = 100, move_y = 50, move_cursorId = ''arrow'', processTimeMs = 0\<rparr> (1 / 100)
     = Inr (\<lparr>pos_x = 0, pos_y = 0, rawX = 100, rawY = 50, pos_cursorId = ''arrow''\<rparr>,
            \<lparr>spring = createSpring2D 0 0,
             config = \<lparr>stiffness = 0, damping = 80, mass = 1\<rparr>,
             lastRawPosition = Some (100, 50), teleportThreshold = 500\<rparr>)"
  by (simp add: eval_defs)

section \<open>Initial state\<close>

text \<open>
  C8.  A freshly constructed \<open>CursorSmoother\<close> has its spring at the origin and no previous
  raw position, so its first \<open>update\<close> skips the teleport test and steps from (0, 0): with the
  default configuration, the first sample (100, 50) and \<open>dt = 1 / 100\<close> it returns (8, 4), and
  the spring leaves with the velocity (800, 400).  The batch mode resets the smoother first,
  and there the spring starts at the first sample with zero velocity.
\<close>

theorem fresh_smoother_first_update:
  "spring (newCursorSmoother cfg threshold) = createSpring2D 0 0
   \<and> lastRawPosition (newCursorSmoother cfg threshold) = None
   \<and> update (newCursorSmoother DEFAULT_SPRING_CONFIG DEFAULT_TELEPORT_THRESHOLD)
       \<lparr>move_x = 100, move_y = 50, move_cursorId = ''arrow'', processTimeMs = 0\<rparr> (1 / 100)
     = Inr (\<lparr>pos_x = 8, pos_y = 4, rawX = 100, rawY = 50, pos_cursorId = ''arrow''\<rparr>,
            \<lparr>spring = \<lparr>spring_x = \<lparr>position = 8, velocity = 800\<rparr>,
                       spring_y = \<lparr>position = 4, velocity = 400\<rparr>\<rparr>,
             config = DEFAULT_SPRING_CONFIG,
             lastRawPosition = Some (100, 50),
             teleportThreshold = DEFAULT_TELEPORT_THRESHOLD\<rparr>)
   \<and> spring (freshSmootherAt cfg first) = createSpring2D (move_x first) (move_y first)"
  by (simp add: eval_defs freshSmootherAt_def)

section \<open>Edge cases of the batch resampler\<close>

text \<open>
  C9.  For the empty raw stream \<open>smoothMouseMoves\<close> returns the empty sequence and no error.
  For a stream of a single sample (with a non-zero output frame rate and a non-zero mass)
  it returns at least one frame, and every frame it returns has the smoothed and the raw
  position equal to the coordinates of that sample, with the sample's cursor.
\<close>

theorem smoothMouseMoves_edge_cases:
  "smoothMouseMoves [] cfg outputFps = Inr []
   \<and> (outputFps \<noteq> 0 \<and> mass cfg \<noteq> 0 \<longrightarrow>
        (\<exists>n. 1 \<le> n
           \<and> smoothMouseMoves [m] cfg outputFps
               = Inr (replicate n \<lparr>pos_x = move_x m, pos_y = move_y m,
                                   rawX = move_x m, rawY = move_y m,
                                   pos_cursorId = move_cursorId m\<rparr>)))"
proof (intro conjI impI)
  show "smoothMouseMoves [] cfg outputFps = Inr []"
    by (simp add: smoothMouseMoves_def)
next
  assume a: "outputFps \<noteq> 0 \<and> mass cfg \<noteq> 0"
  let ?fd = "1000 / outputFps"
  let ?fc = "max 1 \<lceil>processTimeMs (last [m]) / ?fd\<rceil>"
  let ?s = "reset (newCursorSmoother cfg DEFAULT_TELEPORT_THRESHOLD) (move_x (hd [m])) (move_y (hd [m]))"
  have idx: "frameRawIndices [m] ?fd ?fc 0 0 = replicate (nat ?fc) 0"
    by (rule frameRawIndices_single_aux) simp
  have s: "mass (config ?s) \<noteq> 0" "spring ?s = createSpring2D (move_x m) (move_y m)"
    using a by (simp_all add: reset_def newCursorSmoother_def)
  have targets: "map ((!) [m]) (frameRawIndices [m] ?fd ?fc 0 0) = replicate (nat ?fc) m"
    unfolding idx by simp
  have "smoothMouseMoves [m] cfg outputFps
      = driveSmoother ?s (map ((!) [m]) (frameRawIndices [m] ?fd ?fc 0 0)) (?fd / 1000)"
    using a by (intro smoothMouseMoves_unfold) simp_all
  also have "\<dots> = driveSmoother ?s (replicate (nat ?fc) m) (?fd / 1000)"
    by (simp only: targets)
  also have "\<dots> = Inr (replicate (nat ?fc) \<lparr>pos_x = move_x m, pos_y = move_y m,
                                   rawX = move_x m, rawY = move_y m,
                                   pos_cursorId = move_cursorId m\<rparr>)"
    using s by (rule driveSmoother_at_rest)
  finally show "\<exists>n. 1 \<le> n
           \<and> smoothMouseMoves [m] cfg outputFps
               = Inr (replicate n \<lparr>pos_x = move_x m, pos_y = move_y m,
                                   rawX = move_x m, rawY = move_y m,
                                   pos_cursorId = move_cursorId m\<rparr>)"
    by (intro exI [of _ "nat ?fc"]) simp
qed

text \<open>The empty stream, and a single sample at 100 ms with 30 frames per second.\<close>

theorem smoothMouseMoves_edge_cases_witness:
  "smoothMouseMoves [] DEFAULT_SPRING_CONFIG 30 = Inr []
   \<and> (\<exists>n. 1 \<le> n
         \<and> smoothMouseMoves
             [\<lparr>move_x = 120, move_y = 80, move_cursorId = ''arrow'', processTimeMs = 100\<rparr>]
             DEFAULT_SPRING_CONFIG 30
             = Inr (replicate n \<lparr>pos_x = 120, pos_y = 80, rawX = 120, rawY = 80,
                                 pos_cursorId = ''arrow''\<rparr>))"
  using smoothMouseMoves_edge_cases [of DEFAULT_SPRING_CONFIG 30
      "\<lparr>move_x = 120, move_y = 80, move_cursorId = ''arrow'', processTimeMs = 100\<rparr>"]
  by (simp add: DEFAULT_SPRING_CONFIG_def)

section \<open>Scaling the video into the preview\<close>

text \<open>
  C10.  \<open>calculateScale\<close> returns a result for all arguments: no division by zero is
  reached.  When the video width or height is 0 it returns scale 1 with zero offsets.  For
  positive video and container dimensions the scale is the smaller of
  \<open>containerWidth / videoWidth\<close> and \<open>containerHeight / videoHeight\<close>, and the offsets centre the
  scaled video: the margins on both sides are equal, none is negative, and the video fills
  the container in at least one direction.
\<close>

theorem calculateScale_total_and_centered:
  "(\<exists>r. calculateScale videoWidth videoHeight containerWidth containerHeight = Inr r)
   \<and> (videoWidth = 0 \<or> videoHeight = 0 \<longrightarrow>
        calculateScale videoWidth videoHeight containerWidth containerHeight
          = Inr \<lparr>scale = 1, offsetX = 0, offsetY = 0\<rparr>)
   \<and> (0 < videoWidth \<and> 0 < videoHeight \<and> 0 < containerWidth \<and> 0 < containerHeight \<longrightarrow>
        (\<exists>r. calculateScale videoWidth videoHeight containerWidth containerHeight = Inr r
           \<and> scale r = min (containerWidth / videoWidth) (containerHeight / videoHeight)
           \<and> offsetX r = (containerWidth - videoWidth * scale r) / 2
           \<and> offsetY r = (containerHeight - videoHeight * scale r) / 2
           \<and> offsetX r + videoWidth * scale r + offsetX r = containerWidth
           \<and> offsetY r + videoHeight * scale r + offsetY r = containerHeight
           \<and> 0 \<le> offsetX r \<and> 0 \<le> offsetY r
           \<and> (offsetX r = 0 \<or> offsetY r = 0)))"
proof (intro conjI impI)
  show "\<exists>r. calculateScale videoWidth videoHeight containerWidth containerHeight = Inr r"
    by (simp add: calculateScale_def jsdiv_def Let_def)
next
  assume "videoWidth = 0 \<or> videoHeight = 0"
  then show "calculateScale videoWidth videoHeight containerWidth containerHeight
          = Inr \<lparr>scale = 1, offsetX = 0, offsetY = 0\<rparr>"
    by (simp add: calculateScale_def)
next
  assume pos: "0 < videoWidth \<and> 0 < videoHeight \<and> 0 < containerWidth \<and> 0 < containerHeight"
  let ?sc = "min (containerWidth / videoWidth) (containerHeight / videoHeight)"
  let ?r = "\<lparr>scale = ?sc, offsetX = (containerWidth - videoWidth * ?sc) / 2,
             offsetY = (containerHeight - videoHeight * ?sc) / 2\<rparr>"
  from pos have r: "calculateScale videoWidth videoHeight containerWidth containerHeight = Inr ?r"
    by (simp add: calculateScale_def jsdiv_def Let_def)
  have w: "videoWidth * ?sc \<le> containerWidth"
  proof -
    have "videoWidth * ?sc \<le> videoWidth * (containerWidth / videoWidth)"
      using pos by (intro mult_left_mono) simp_all
    also have "\<dots> = containerWidth" using pos by simp
    finally show ?thesis .
  qed
  have h: "videoHeight * ?sc \<le> containerHeight"
  proof -
    have "videoHeight * ?sc \<le> videoHeight * (containerHeight / videoHeight)"
      using pos by (intro mult_left_mono) simp_all
    also have "\<dots> = containerHeight" using pos by simp
    finally show ?thesis .
  qed
  have touch: "videoWidth * ?sc = containerWidth \<or> videoHeight * ?sc = containerHeight"
    using pos by (cases "containerWidth / videoWidth \<le> containerHeight / videoHeight")
      (simp_all add: min_def)
  from w h touch have
    "scale ?r = ?sc
     \<and> offsetX ?r = (containerWidth - videoWidth * scale ?r) / 2
     \<and> offsetY ?r = (containerHeight - videoHeight * scale ?r) / 2
     \<and> offsetX ?r + videoWidth * scale ?r + offsetX ?r = containerWidth
     \<and> offsetY ?r + videoHeight * scale ?r + offsetY ?r = containerHeight
     \<and> 0 \<le> offsetX ?r \<and> 0 \<le> offsetY ?r
     \<and> (offsetX ?r = 0 \<or> offsetY ?r = 0)"
    by (auto simp: field_simps)
  with r show "\<exists>r. calculateScale videoWidth videoHeight containerWidth containerHeight = Inr r
           \<and> scale r = min (containerWidth / videoWidth) (containerHeight / videoHeight)
           \<and> offsetX r = (containerWidth - videoWidth * scale r) / 2
           \<and> offsetY r = (containerHeight - videoHeight * scale r) / 2
           \<and> offsetX r + videoWidth * scale r + offsetX r = containerWidth
           \<and> offsetY r + videoHeight * scale r + offsetY r = containerHeight
           \<and> 0 \<le> offsetX r \<and> 0 \<le> offsetY r
           \<and> (offsetX r = 0 \<or> offsetY r = 0)"
    by blast
qed

text \<open>A zero video width, and a 1920 x 1080 video in an 800 x 600 container.\<close>

theorem calculateScale_total_and_centered_witness:
  "calculateScale 0 1080 800 600 = Inr \<lparr>scale = 1, offsetX = 0, offsetY = 0\<rparr>
   \<and> calculateScale 1920 1080 800 600 = Inr \<lparr>scale = 5 / 12, offsetX = 0, offsetY = 75\<rparr>"
proof -
  from calculateScale_total_and_centered [of 0 1080 800 600]
  have a: "calculateScale 0 1080 800 600 = Inr \<lparr>scale = 1, offsetX = 0, offsetY = 0\<rparr>"
    by simp
  from calculateScale_total_and_centered [of 1920 1080 800 600]
  obtain r where r: "calculateScale 1920 1080 800 600 = Inr r"
    and "scale r = min (800 / 1920) (600 / 1080)"
    and "offsetX r = (800 - 1920 * scale r) / 2"
    and "offsetY r = (600 - 1080 * scale r) / 2"
    by auto
  then have "r = \<lparr>scale = 5 / 12, offsetX = 0, offsetY = 75\<rparr>"
    by simp
  with a r show ?thesis by simp
qed

end
